theory Spec2Isabelle
  imports Complex_Main
begin

section \<open>The retry queue of lib/queue.js\<close>

text \<open>
  The development follows \<^verbatim>\<open>lib/queue.js\<close>: the queue records of the collection, the
  closure constants of one queue instance, the promise chains of the module as a state and
  error monad over the collection, and the properties of batch selection, of the per-record
  state machine and of the batch tick. \<^verbatim>\<open>statusesCheck\<close> and \<^verbatim>\<open>ensureIndexes\<close> read the
  collection without changing a document and are left out.
\<close>

subsection \<open>Queue records\<close>

text \<open>
  A date is the number of milliseconds a JavaScript \<^verbatim>\<open>Date\<close> holds. An error detail is
  what \<^verbatim>\<open>(err && err.stack) || err\<close> yields. The additional information a handler returns
  is an object, kept as the list of its own keys and values.
\<close>

type_synonym date = int
type_synonym detail = string
type_synonym info = "(string \<times> string) list"

text \<open>\<^verbatim>\<open>STATUS_CODES\<close>.\<close>

datatype status = received | processed | failed | skipped | notified | notifyFailure

text \<open>
  A document of the collection. A field that a document may lack is an option; \<open>oid\<close> is the
  \<^verbatim>\<open>_id\<close> the store assigns.
\<close>

record qrecord =
  oid :: nat
  status :: status
  receivedDate :: date
  available :: "date option"
  processedDate :: "date option"
  retryCount :: "int option"
  failureReason :: "detail option"
  immediateFailure :: "bool option"
  additionalInfo :: "info option"
  notifyFailureReason :: "detail option"
  resetDate :: "date option"
  data :: string

subsection \<open>Host numbers\<close>

text \<open>
  The backoff delay is computed in the host's floating point numbers. Their type \<open>'n\<close> and
  the operations the module applies to them are parameters of the model: the embedding of an
  integer, \<^verbatim>\<open>Math.pow\<close>, \<^verbatim>\<open>*\<close>, \<^verbatim>\<open>+\<close> and the \<^verbatim>\<open>Date\<close> constructor applied to a number.
\<close>

record 'n host =
  js_num :: "int \<Rightarrow> 'n"
  Math_pow :: "'n \<Rightarrow> 'n \<Rightarrow> 'n"
  js_times :: "'n \<Rightarrow> 'n \<Rightarrow> 'n"
  js_plus :: "'n \<Rightarrow> 'n \<Rightarrow> 'n"
  new_Date :: "'n \<Rightarrow> date"

text \<open>
  A host with exact arithmetic on the reals, for evaluating the model on inputs where the
  floating point operations are exact as well; a \<^verbatim>\<open>Date\<close> keeps the integral part.
\<close>

definition exact_host :: "real host" where
  "exact_host =
     \<lparr>js_num = of_int, Math_pow = (\<lambda>b e. b powr e), js_times = (*), js_plus = (+),
      new_Date = (\<lambda>x. if 0 \<le> x then \<lfloor>x\<rfloor> else \<lceil>x\<rceil>)\<rparr>"

subsection \<open>Errors and handler outcomes\<close>

text \<open>
  The values a promise of the module is rejected with: the module's own
  \<^verbatim>\<open>STOP_PROCESSING\<close> sentinel, the skip and fail signals of \<^verbatim>\<open>lib/utils.js\<close>, every other
  error (of the handler, of a hook or of the store) with its detail, and \<^verbatim>\<open>undefined\<close> or
  \<^verbatim>\<open>null\<close>, which a handler or a hook may reject with and which has no properties to read.
\<close>

datatype error =
  STOP_PROCESSING | SkipSignal "int option" | FailSignal detail | Err detail | Nullish

text \<open>
  Modelled from the spec: \<^verbatim>\<open>lib/utils.js\<close> is not among the sources. The skip signal is
  recognised by its tag and carries an integer delay in milliseconds, 0 when none was given;
  the fail signal is recognised by its tag and carries a reason.
\<close>

fun isSkip :: "error \<Rightarrow> bool" where
  "isSkip (SkipSignal _) = True"
| "isSkip _ = False"

fun isFail :: "error \<Rightarrow> bool" where
  "isFail (FailSignal _) = True"
| "isFail _ = False"

fun getSkipBackoff :: "error \<Rightarrow> int" where
  "getSkipBackoff (SkipSignal (Some d)) = d"
| "getSkipBackoff _ = 0"

fun getFailReason :: "error \<Rightarrow> detail" where
  "getFailReason (FailSignal reason) = reason"
| "getFailReason _ = []"

text \<open>
  \<^verbatim>\<open>(err && err.stack) || err\<close>: the detail stored for an error. For the sentinel and
  the skip signal the model fixes a text; for \<^verbatim>\<open>undefined\<close> or \<^verbatim>\<open>null\<close> the guarded
  expression yields the value itself.
\<close>

fun stack_of :: "error \<Rightarrow> detail" where
  "stack_of (Err d) = d"
| "stack_of STOP_PROCESSING = ''Error: ____stopProcessing____''"
| "stack_of (SkipSignal _) = ''skip''"
| "stack_of (FailSignal reason) = reason"
| "stack_of Nullish = ''undefined''"

subsection \<open>The options of a queue instance\<close>

text \<open>
  The constants the closure of \<^verbatim>\<open>module.exports\<close> captures. \<open>backoffCoefficient\<close> is the
  constant after \<^verbatim>\<open>opts.backoffCoefficient || 1.5\<close>. The handler \<open>onProcess\<close> resolves with
  the additional information or is rejected; the hooks resolve or are rejected. \<open>onFailure\<close>
  receives the record, or \<^verbatim>\<open>null\<close> when \<^verbatim>\<open>findOne\<close> found no document. A hook is
  called at most once with a given record in a tick, so an outcome that depends on the
  record stands for any behaviour of the hook; the hooks do not write to the collection.
\<close>

record 'n opts =
  host :: "'n host"
  batchSize :: nat
  maxRecordAge :: int
  retryLimit :: int
  backoffMs :: 'n
  backoffCoefficient :: 'n
  continueProcessingOnError :: bool
  onProcess :: "qrecord \<Rightarrow> error + info option"
  onFailure :: "qrecord option \<Rightarrow> error + unit"
  onPreHook :: "(error + unit) option"

subsection \<open>Backoff and retry exhaustion\<close>

text \<open>
  \<^verbatim>\<open>record.retryCount || 0\<close>: an absent count reads as 0. Counts are integers, and
  \<^verbatim>\<open>retryCount + 1\<close> is the exact sum before it becomes the base of \<^verbatim>\<open>Math.pow\<close>.
\<close>

definition retryCount_or_0 :: "qrecord \<Rightarrow> int" where
  "retryCount_or_0 r = (case retryCount r of None \<Rightarrow> 0 | Some c \<Rightarrow> c)"

definition getErrorBackoffMs :: "'n opts \<Rightarrow> qrecord \<Rightarrow> 'n" where
  "getErrorBackoffMs q r =
     (let rc = retryCount_or_0 r
      in if rc = retryLimit q then js_num (host q) 0
         else js_times (host q)
                (Math_pow (host q) (js_num (host q) (rc + 1)) (backoffCoefficient q))
                (backoffMs q))"

text \<open>
  \<^verbatim>\<open>retryLimit >= 0 && record.retryCount && record.retryCount >= retryLimit\<close>: the middle
  conjunct is false for an absent count and for the count 0.
\<close>

definition recordHasFailed :: "'n opts \<Rightarrow> qrecord \<Rightarrow> bool" where
  "recordHasFailed q r =
     (0 \<le> retryLimit q \<and>
      (case retryCount r of None \<Rightarrow> False | Some c \<Rightarrow> c \<noteq> 0 \<and> retryLimit q \<le> c))"

subsection \<open>The collection, the clock and promises\<close>

text \<open>
  The hooks invoked so far are logged, so that a theorem can say that a hook was or was not
  called.
\<close>

datatype call = OnPreHook | OnProcess nat | OnFailure "nat option"

text \<open>
  The world a promise chain runs in: the documents of the collection in insertion order,
  the readings the clock will give (\<open>clock w 0\<close> is the next one), the outcomes the store
  will give (\<open>faults w 0 = Some d\<close>: the next store operation is rejected with an error of
  detail \<open>d\<close>), and the log of hook invocations.
\<close>

record world =
  docs :: "qrecord list"
  clock :: "nat \<Rightarrow> date"
  faults :: "nat \<Rightarrow> detail option"
  calls :: "call list"

text \<open>
  A promise is a computation on the world that is resolved with a value (\<open>Inr\<close>) or rejected
  with an error (\<open>Inl\<close>); what it did to the world before a rejection stays done.
\<close>

type_synonym 'a promise = "world \<Rightarrow> (error + 'a) \<times> world"

definition resolve :: "'a \<Rightarrow> 'a promise" where
  "resolve x w = (Inr x, w)"

definition reject :: "error \<Rightarrow> 'a promise" where
  "reject e w = (Inl e, w)"

definition then_p :: "'a promise \<Rightarrow> ('a \<Rightarrow> 'b promise) \<Rightarrow> 'b promise" where
  "then_p p f w = (case p w of (Inl e, w') \<Rightarrow> (Inl e, w') | (Inr x, w') \<Rightarrow> f x w')"

definition catch_p :: "'a promise \<Rightarrow> (error \<Rightarrow> 'a promise) \<Rightarrow> 'a promise" where
  "catch_p p h w = (case p w of (Inl e, w') \<Rightarrow> h e w' | (Inr x, w') \<Rightarrow> (Inr x, w'))"

definition reflect :: "'a promise \<Rightarrow> (error + 'a) promise" where
  "reflect p w = (case p w of (r, w') \<Rightarrow> (Inr r, w'))"

text \<open>Bluebird's \<^verbatim>\<open>mapSeries\<close>: one element after the other, stopping at the first rejection.\<close>

fun mapSeries :: "('a \<Rightarrow> 'b promise) \<Rightarrow> 'a list \<Rightarrow> 'b list promise" where
  "mapSeries f [] = resolve []"
| "mapSeries f (x # xs) =
     then_p (f x) (\<lambda>y. then_p (mapSeries f xs) (\<lambda>ys. resolve (y # ys)))"

text \<open>\<^verbatim>\<open>new Date()\<close> and \<^verbatim>\<open>Date.now()\<close> take the next reading of the clock.\<close>

definition newDate :: "date promise" where
  "newDate w = (Inr (clock w 0), w\<lparr>clock := (\<lambda>i. clock w (Suc i))\<rparr>)"

text \<open>Calling a hook logs the call and gives the hook's outcome.\<close>

definition invoke :: "call \<Rightarrow> error + 'a \<Rightarrow> 'a promise" where
  "invoke c outcome w = (outcome, w\<lparr>calls := calls w @ [c]\<rparr>)"

subsection \<open>The store\<close>

text \<open>
  Modelled from the spec: the store is an external collaborator (\<^verbatim>\<open>lib/db.js\<close> and the
  MongoDB driver are not among the sources). An operation is rejected when the store says
  so and is applied to the documents otherwise. A filter supports set membership,
  comparison and logical or; a comparison does not match a document that lacks the field;
  \<^verbatim>\<open>update\<close> without \<^verbatim>\<open>multi\<close> changes the first matching document; the sort is taken to
  keep documents of equal key in insertion order; a limit of 0 is no limit.
\<close>

definition store_op :: "(qrecord list \<Rightarrow> 'a \<times> qrecord list) \<Rightarrow> 'a promise" where
  "store_op f w =
     (case faults w 0 of
        Some d \<Rightarrow> (Inl (Err d), w\<lparr>faults := (\<lambda>i. faults w (Suc i))\<rparr>)
      | None \<Rightarrow>
          (case f (docs w) of
             (x, ds) \<Rightarrow> (Inr x, w\<lparr>docs := ds, faults := (\<lambda>i. faults w (Suc i))\<rparr>)))"

definition getCollection :: "unit promise" where
  "getCollection = store_op (\<lambda>ds. ((), ds))"

datatype query =
    StatusIn "status list"
  | StatusEq status
  | AvailableLte date
  | ProcessedDateLte date
  | Both query query
  | Or query query

fun matches :: "query \<Rightarrow> qrecord \<Rightarrow> bool" where
  "matches (StatusIn ss) r = (status r \<in> set ss)"
| "matches (StatusEq s) r = (status r = s)"
| "matches (AvailableLte t) r = (case available r of None \<Rightarrow> False | Some a \<Rightarrow> a \<le> t)"
| "matches (ProcessedDateLte t) r = (case processedDate r of None \<Rightarrow> False | Some p \<Rightarrow> p \<le> t)"
| "matches (Both q1 q2) r = (matches q1 r \<and> matches q2 r)"
| "matches (Or q1 q2) r = (matches q1 r \<or> matches q2 r)"

definition limit :: "nat \<Rightarrow> 'a list \<Rightarrow> 'a list" where
  "limit n xs = (if n = 0 then xs else take n xs)"

text \<open>\<^verbatim>\<open>collection.find(query).sort({receivedDate: 1}).limit(n).toArray()\<close>.\<close>

definition find_sorted :: "query \<Rightarrow> nat \<Rightarrow> qrecord list promise" where
  "find_sorted qy n =
     store_op (\<lambda>ds. (limit n (sort_key receivedDate (filter (matches qy) ds)), ds))"

definition findOne :: "nat \<Rightarrow> qrecord option promise" where
  "findOne i = store_op (\<lambda>ds. (find (\<lambda>d. oid d = i) ds, ds))"

fun updateOne :: "nat \<Rightarrow> (qrecord \<Rightarrow> qrecord) \<Rightarrow> qrecord list \<Rightarrow> qrecord list" where
  "updateOne i f [] = []"
| "updateOne i f (d # ds) = (if oid d = i then f d # ds else d # updateOne i f ds)"

definition update :: "nat \<Rightarrow> (qrecord \<Rightarrow> qrecord) \<Rightarrow> unit promise" where
  "update i f = store_op (\<lambda>ds. ((), updateOne i f ds))"

definition update_multi :: "nat list \<Rightarrow> (qrecord \<Rightarrow> qrecord) \<Rightarrow> nat promise" where
  "update_multi ids f =
     store_op (\<lambda>ds. (length (filter (\<lambda>d. oid d \<in> set ids) ds),
                      map (\<lambda>d. if oid d \<in> set ids then f d else d) ds))"

definition remove :: "query \<Rightarrow> unit promise" where
  "remove qy = store_op (\<lambda>ds. ((), filter (\<lambda>d. \<not> matches qy d) ds))"

text \<open>The store assigns an identifier that no document of the collection has.\<close>

definition newId :: "qrecord list \<Rightarrow> nat" where
  "newId ds = Suc (fold max (map oid ds) 0)"

definition insert_doc :: "qrecord \<Rightarrow> qrecord promise" where
  "insert_doc d = store_op (\<lambda>ds. (d\<lparr>oid := newId ds\<rparr>, ds @ [d\<lparr>oid := newId ds\<rparr>]))"

subsection \<open>The operations of the module\<close>

text \<open>
  \<^verbatim>\<open>insertNewRecord\<close> inserts
  \<^verbatim>\<open>{receivedDate: new Date(), status: 'received', available: new Date(), data: record}\<close>
  and resolves with the inserted document, \<^verbatim>\<open>result.ops[0]\<close>.
\<close>

definition insertNewRecord :: "string \<Rightarrow> qrecord promise" where
  "insertNewRecord payload =
     then_p
       (then_p getCollection (\<lambda>_.
          then_p newDate (\<lambda>t1.
          then_p newDate (\<lambda>t2.
            insert_doc
              \<lparr>oid = 0, status = received, receivedDate = t1, available = Some t2,
               processedDate = None, retryCount = None, failureReason = None,
               immediateFailure = None, additionalInfo = None, notifyFailureReason = None,
               resetDate = None, data = payload\<rparr>))))
       (\<lambda>result. resolve result)"

definition enqueue :: "string \<Rightarrow> qrecord promise" where
  "enqueue payload = insertNewRecord payload"

text \<open>
  \<^verbatim>\<open>processSuccess\<close> updates the document of the record with
  \<^verbatim>\<open>$set: {status: 'processed', processedDate: new Date()}\<close>, with the record's
  \<^verbatim>\<open>additionalInfo\<close> in the set when the record has one, and with
  \<^verbatim>\<open>$unset: {failureReason: '', retryCount: '', available: ''}\<close>.
\<close>

definition processSuccess :: "qrecord \<Rightarrow> unit promise" where
  "processSuccess r =
     then_p getCollection (\<lambda>_.
       then_p newDate (\<lambda>now.
         update (oid r)
           (\<lambda>d. d\<lparr>status := processed, processedDate := Some now,
                  additionalInfo :=
                    (case additionalInfo r of None \<Rightarrow> additionalInfo d | Some ai \<Rightarrow> Some ai),
                  failureReason := None, retryCount := None, available := None\<rparr>)))"

text \<open>
  \<^verbatim>\<open>processFailure\<close> computes the delay from the record it was given and updates the
  document with
  \<^verbatim>\<open>$set: {status: 'failed', processedDate: new Date(), failureReason: (err && err.stack) || err,
  available: new Date(Date.now() + delay)}\<close> and \<^verbatim>\<open>$inc: {retryCount: 1}\<close>; the increment
  of an absent count gives 1.
\<close>

definition processFailure :: "'n opts \<Rightarrow> qrecord \<Rightarrow> error \<Rightarrow> unit promise" where
  "processFailure q r err =
     (let delay = getErrorBackoffMs q r
      in then_p getCollection (\<lambda>_.
           then_p newDate (\<lambda>t1.
           then_p newDate (\<lambda>t2.
             update (oid r)
               (\<lambda>d. d\<lparr>status := failed, processedDate := Some t1,
                      failureReason := Some (stack_of err),
                      available :=
                        Some (new_Date (host q)
                                (js_plus (host q) (js_num (host q) t2) delay)),
                      retryCount := Some (retryCount_or_0 d + 1)\<rparr>)))))"

text \<open>
  \<^verbatim>\<open>processSkip\<close> updates the document with
  \<^verbatim>\<open>$set: {status: 'skipped', processedDate: new Date(),
  available: new Date(Date.now() + utils.getSkipBackoff(skipErr))}\<close>. The skip delay is an
  integer, so the sum is exact and the \<^verbatim>\<open>Date\<close> holds it.
\<close>

definition processSkip :: "qrecord \<Rightarrow> error \<Rightarrow> unit promise" where
  "processSkip r skipErr =
     then_p getCollection (\<lambda>_.
       then_p newDate (\<lambda>t1.
       then_p newDate (\<lambda>t2.
         update (oid r)
           (\<lambda>d. d\<lparr>status := skipped, processedDate := Some t1,
                  available := Some (t2 + getSkipBackoff skipErr)\<rparr>))))"

text \<open>
  \<^verbatim>\<open>notifyFailedRecord\<close> calls \<^verbatim>\<open>onFailure(record)\<close>, reflects its outcome and updates the
  document with \<^verbatim>\<open>$set: {processedDate: new Date(), status: 'notified'}\<close>, or with the
  status \<^verbatim>\<open>'notifyFailure'\<close> and \<^verbatim>\<open>notifyFailureReason\<close> when the hook was rejected. There
  is no \<^verbatim>\<open>$unset\<close>. The reason is read with \<^verbatim>\<open>reason.stack || reason\<close>, without the guard
  that \<^verbatim>\<open>processFailure\<close> has: when the hook was rejected with \<^verbatim>\<open>undefined\<close> or
  \<^verbatim>\<open>null\<close>, reading \<^verbatim>\<open>reason.stack\<close> throws before anything is persisted. The function may
  receive \<^verbatim>\<open>null\<close> from \<^verbatim>\<open>failImmediately\<close>; then reading \<^verbatim>\<open>record._id\<close> for the update
  throws.
\<close>

definition notifyFailedRecord :: "'n opts \<Rightarrow> qrecord option \<Rightarrow> unit promise" where
  "notifyFailedRecord q ro =
     then_p
       (reflect
          (then_p (resolve ()) (\<lambda>_. invoke (OnFailure (map_option oid ro)) (onFailure q ro))))
       (\<lambda>reflected.
          then_p newDate (\<lambda>now.
            then_p
              (case reflected of
                 Inl reason \<Rightarrow>
                   if reason = Nullish
                   then reject (Err ''TypeError: Cannot read property stack of undefined'')
                   else
                     resolve
                       (\<lambda>d. d\<lparr>processedDate := Some now, status := notifyFailure,
                              notifyFailureReason := Some (stack_of reason)\<rparr>)
               | Inr _ \<Rightarrow> resolve (\<lambda>d. d\<lparr>processedDate := Some now, status := notified\<rparr>))
              (\<lambda>upd.
                 then_p getCollection (\<lambda>_.
                   case ro of
                     None \<Rightarrow> reject (Err ''TypeError: Cannot read property _id of null'')
                   | Some r \<Rightarrow> update (oid r) upd))))"

text \<open>
  \<^verbatim>\<open>failImmediately\<close> updates the document with
  \<^verbatim>\<open>$set: {status: 'failed', immediateFailure: true, failureReason: (reason && reason.stack) || reason}\<close>,
  reads it back with \<^verbatim>\<open>findOne\<close> and notifies.
\<close>

definition failImmediately :: "'n opts \<Rightarrow> qrecord \<Rightarrow> error \<Rightarrow> unit promise" where
  "failImmediately q r err =
     (let reason = getFailReason err
      in then_p
           (then_p getCollection (\<lambda>_.
              then_p
                (update (oid r)
                   (\<lambda>d. d\<lparr>status := failed, immediateFailure := Some True,
                          failureReason := Some reason\<rparr>))
                (\<lambda>_. findOne (oid r))))
           (\<lambda>updatedRecord. notifyFailedRecord q updatedRecord))"

text \<open>
  \<^verbatim>\<open>additionalInfo && Object.keys(additionalInfo).length > 0\<close> decides whether the handler's
  result is put on the record before \<^verbatim>\<open>processSuccess\<close>.
\<close>

definition attachInfo :: "qrecord \<Rightarrow> info option \<Rightarrow> qrecord" where
  "attachInfo r ai =
     (case ai of
        None \<Rightarrow> r
      | Some kvs \<Rightarrow> if kvs \<noteq> [] then r\<lparr>additionalInfo := Some kvs\<rparr> else r)"

text \<open>
  \<^verbatim>\<open>processRecord\<close>: an exhausted record goes to the notifier. Otherwise the handler is
  called and \<^verbatim>\<open>processSuccess\<close> follows; the \<^verbatim>\<open>catch\<close> after them receives the rejection of
  either and routes a skip signal to \<^verbatim>\<open>processSkip\<close>, a fail signal to
  \<^verbatim>\<open>failImmediately\<close> and any other error to \<^verbatim>\<open>processFailure\<close>, after which it throws
  \<^verbatim>\<open>STOP_PROCESSING\<close> unless \<^verbatim>\<open>continueProcessingOnError\<close> is set.
\<close>

definition processRecord :: "'n opts \<Rightarrow> qrecord \<Rightarrow> unit promise" where
  "processRecord q r =
     (if recordHasFailed q r then notifyFailedRecord q (Some r)
      else
        catch_p
          (then_p
             (then_p (resolve ()) (\<lambda>_. invoke (OnProcess (oid r)) (onProcess q r)))
             (\<lambda>ai. processSuccess (attachInfo r ai)))
          (\<lambda>err.
             if isSkip err then processSkip r err
             else if isFail err then failImmediately q r err
             else
               then_p (processFailure q r err)
                 (\<lambda>_. if \<not> continueProcessingOnError q then reject STOP_PROCESSING
                      else resolve ())))"

text \<open>
  \<^verbatim>\<open>firstFailed && firstFailed.available > new Date()\<close> reads the clock only when there is a
  failed record; a comparison with an absent \<open>available\<close> is false. The filter reads the
  clock once for each record.
\<close>

definition after :: "qrecord \<Rightarrow> date \<Rightarrow> bool" where
  "after r now = (case available r of None \<Rightarrow> False | Some a \<Rightarrow> now < a)"

definition availableBy :: "qrecord \<Rightarrow> date \<Rightarrow> bool" where
  "availableBy r now = (case available r of None \<Rightarrow> False | Some a \<Rightarrow> a \<le> now)"

fun filter_now :: "(qrecord \<Rightarrow> date \<Rightarrow> bool) \<Rightarrow> qrecord list \<Rightarrow> qrecord list promise" where
  "filter_now P [] = resolve []"
| "filter_now P (r # rs) =
     then_p newDate (\<lambda>now.
       then_p (filter_now P rs) (\<lambda>rs'. resolve (if P r now then r # rs' else rs')))"

definition prioritizeRecords :: "'n opts \<Rightarrow> qrecord list \<Rightarrow> qrecord list promise" where
  "prioritizeRecords q records =
     (if continueProcessingOnError q then resolve records
      else
        then_p
          (case find (\<lambda>r. status r = failed) records of
             None \<Rightarrow> resolve False
           | Some firstFailed \<Rightarrow> then_p newDate (\<lambda>now. resolve (after firstFailed now)))
          (\<lambda>blocked. if blocked then resolve [] else filter_now availableBy records))"

text \<open>
  \<^verbatim>\<open>getNextBatch\<close> builds the query
  \<^verbatim>\<open>{status: {$in: ['received', 'failed', 'skipped']}, available: {$lte: new Date()}}\<close>, in
  strict mode \<^verbatim>\<open>{$or: [{status: 'failed'}, getUnprocessed]}\<close>, finds the documents sorted by
  \<^verbatim>\<open>receivedDate\<close> and limited to \<^verbatim>\<open>batchSize\<close>, and prioritizes them.
\<close>

definition getNextBatch :: "'n opts \<Rightarrow> qrecord list promise" where
  "getNextBatch q =
     then_p newDate (\<lambda>now.
       let getUnprocessed = Both (StatusIn [received, failed, skipped]) (AvailableLte now);
           qy = (if continueProcessingOnError q then getUnprocessed
                 else Or (StatusEq failed) getUnprocessed)
       in then_p (then_p getCollection (\<lambda>_. find_sorted qy (batchSize q)))
            (prioritizeRecords q))"

text \<open>
  The first callback of \<^verbatim>\<open>processNextBatch\<close>: the pre-hook is called when there is one.
\<close>

definition preHook :: "'n opts \<Rightarrow> unit promise" where
  "preHook q =
     (case onPreHook q of
        Some outcome \<Rightarrow> invoke OnPreHook outcome
      | None \<Rightarrow> resolve ())"

text \<open>
  The array \<^verbatim>\<open>mapSeries\<close> resolves with holds the acknowledgements of the updates; the
  model resolves with the unit value instead. The handler of \<^verbatim>\<open>catch\<close> rethrows every
  error but the sentinel.
\<close>

definition processNextBatch :: "'n opts \<Rightarrow> unit promise" where
  "processNextBatch q =
     catch_p
       (then_p
          (then_p
             (then_p (then_p (resolve ()) (\<lambda>_. preHook q)) (\<lambda>_. getNextBatch q))
             (mapSeries (processRecord q)))
          (\<lambda>_. resolve ()))
       (\<lambda>err. if err \<noteq> STOP_PROCESSING then reject err else resolve ())"


text \<open>
  \<^verbatim>\<open>cleanup\<close> removes
  \<^verbatim>\<open>{status: 'processed', processedDate: {$lte: new Date(Date.now() - maxRecordAge)}}\<close>.
\<close>

definition cleanup :: "'n opts \<Rightarrow> unit promise" where
  "cleanup q =
     then_p (then_p (resolve ()) (\<lambda>_. getCollection))
       (\<lambda>_. then_p newDate (\<lambda>now.
          remove (Both (StatusEq processed) (ProcessedDateLte (now - maxRecordAge q)))))"

text \<open>
  \<^verbatim>\<open>resetRecords\<close> updates every document whose identifier is in the list and resolves
  with the number of documents matched.
\<close>

definition resetRecords :: "nat list \<Rightarrow> nat promise" where
  "resetRecords recordIds =
     then_p (resolve ()) (\<lambda>_.
       then_p getCollection (\<lambda>_.
         then_p newDate (\<lambda>t1.
         then_p newDate (\<lambda>t2.
         then_p newDate (\<lambda>t3.
           update_multi recordIds
             (\<lambda>d. d\<lparr>status := received, receivedDate := t1, available := Some t2,
                    resetDate := Some t3, processedDate := None, failureReason := None,
                    retryCount := None, immediateFailure := None,
                    notifyFailureReason := None\<rparr>))))))"

subsection \<open>Well-formed collections\<close>

text \<open>
  A document is in order when it carries \<open>available\<close> while its status is one of the
  processable ones and carries none once it is processed. A collection is well formed when
  its identifiers are distinct, as the store guarantees, and its documents are in order.
\<close>

definition doc_ok :: "qrecord \<Rightarrow> bool" where
  "doc_ok d =
     ((status d \<in> {received, failed, skipped} \<longrightarrow> available d \<noteq> None) \<and>
      (status d = processed \<longrightarrow> available d = None))"

definition wf_docs :: "qrecord list \<Rightarrow> bool" where
  "wf_docs ds = (distinct (map oid ds) \<and> list_all doc_ok ds)"

text \<open>
  While a batch is processed, the records still to come are in the collection with their
  \<open>available\<close> field: \<open>S\<close> holds their identifiers.
\<close>

definition tracked :: "nat set \<Rightarrow> qrecord list \<Rightarrow> bool" where
  "tracked S ds = (wf_docs ds \<and> (\<forall>d \<in> set ds. oid d \<in> S \<longrightarrow> available d \<noteq> None))"

subsection \<open>Example inputs\<close>

definition doc :: "nat \<Rightarrow> status \<Rightarrow> date \<Rightarrow> date option \<Rightarrow> int option \<Rightarrow> qrecord" where
  "doc i s t av rc =
     \<lparr>oid = i, status = s, receivedDate = t, available = av, processedDate = None,
      retryCount = rc, failureReason = None, immediateFailure = None,
      additionalInfo = None, notifyFailureReason = None, resetDate = None, data = ''x''\<rparr>"

text \<open>
  A strict queue with \<^verbatim>\<open>retryLimit: 2\<close>, \<^verbatim>\<open>backoffMs: 1000\<close> and
  \<^verbatim>\<open>backoffCoefficient: 2\<close>, whose handler fails with an ordinary error.
\<close>

definition example_opts :: "real opts" where
  "example_opts =
     \<lparr>host = exact_host, batchSize = 10, maxRecordAge = 1000, retryLimit = 2,
      backoffMs = 1000, backoffCoefficient = 2, continueProcessingOnError = False,
      onProcess = (\<lambda>r. Inl (Err ''boom'')), onFailure = (\<lambda>r. Inr ()),
      onPreHook = None\<rparr>"

text \<open>A world whose clock stands at 50 and whose store works.\<close>

definition example_world :: "qrecord list \<Rightarrow> world" where
  "example_world ds = \<lparr>docs = ds, clock = (\<lambda>_. 50), faults = (\<lambda>_. None), calls = []\<rparr>"

section \<open>Lemmas\<close>

subsection \<open>Unfolding the definitions\<close>

lemmas promise_defs =
  resolve_def reject_def then_p_def catch_p_def reflect_def newDate_def invoke_def
  store_op_def getCollection_def find_sorted_def findOne_def update_def limit_def

lemmas queue_defs =
  processNextBatch_def preHook_def getNextBatch_def prioritizeRecords_def processRecord_def
  processSuccess_def processFailure_def processSkip_def notifyFailedRecord_def
  failImmediately_def attachInfo_def recordHasFailed_def getErrorBackoffMs_def
  retryCount_or_0_def after_def availableBy_def

lemmas example_defs = example_opts_def example_world_def doc_def exact_host_def

subsection \<open>Steps when the clock stands and the store works\<close>

text \<open>
  A theorem that speaks of one instant \<open>now\<close> assumes \<open>clock w = (\<lambda>_. now)\<close>: every
  reading the operation takes gives \<open>now\<close>. A theorem that speaks of a working store
  assumes \<open>faults w = (\<lambda>_. None)\<close>.
\<close>

lemma newDate_frozen: "clock w = (\<lambda>_. t) \<Longrightarrow> newDate w = (Inr t, w)"
  by (simp add: newDate_def)

lemma store_op_reliable:
  "faults w = (\<lambda>_. None) \<Longrightarrow>
   store_op f w = (Inr (fst (f (docs w))), w\<lparr>docs := snd (f (docs w))\<rparr>)"
  by (simp add: store_op_def split: prod.splits)

lemma getCollection_reliable: "faults w = (\<lambda>_. None) \<Longrightarrow> getCollection w = (Inr (), w)"
  by (simp add: getCollection_def store_op_reliable)

lemma update_reliable:
  "faults w = (\<lambda>_. None) \<Longrightarrow> update i f w = (Inr (), w\<lparr>docs := updateOne i f (docs w)\<rparr>)"
  by (simp add: update_def store_op_reliable)

lemma processSkip_run:
  assumes "clock w = (\<lambda>_. now)" and "faults w = (\<lambda>_. None)"
  shows "processSkip r e w =
     (Inr (), w\<lparr>docs := updateOne (oid r)
        (\<lambda>d. d\<lparr>status := skipped, processedDate := Some now,
               available := Some (now + getSkipBackoff e)\<rparr>) (docs w)\<rparr>)"
  using assms
  by (simp add: processSkip_def then_p_def getCollection_reliable newDate_frozen update_reliable)

lemma processFailure_run:
  assumes "clock w = (\<lambda>_. now)" and "faults w = (\<lambda>_. None)"
  shows "processFailure q r e w =
     (Inr (), w\<lparr>docs := updateOne (oid r)
        (\<lambda>d. d\<lparr>status := failed, processedDate := Some now,
                      failureReason := Some (stack_of e),
                      available :=
                        Some (new_Date (host q)
                                (js_plus (host q) (js_num (host q) now) (getErrorBackoffMs q r))),
                      retryCount := Some (retryCount_or_0 d + 1)\<rparr>) (docs w)\<rparr>)"
  using assms
  by (simp add: processFailure_def then_p_def getCollection_reliable newDate_frozen update_reliable)

lemma processRecord_skip:
  assumes "\<not> recordHasFailed q r" and "onProcess q r = Inl e" and "isSkip e"
  shows "processRecord q r w = processSkip r e (w\<lparr>calls := calls w @ [OnProcess (oid r)]\<rparr>)"
  using assms by (simp add: processRecord_def catch_p_def then_p_def resolve_def invoke_def)

subsection \<open>Updates of one document\<close>

lemma updateOne_oid: "(\<And>d. oid (f d) = oid d) \<Longrightarrow> map oid (updateOne i f ds) = map oid ds"
  by (induction ds) auto

lemma updateOne_set:
  "x \<in> set (updateOne i f ds) \<Longrightarrow> x \<in> set ds \<or> (\<exists>d \<in> set ds. oid d = i \<and> x = f d)"
  by (induction ds) (auto split: if_splits)

lemma tracked_updateOne:
  assumes "tracked T ds" and "S \<subseteq> T" and "i \<notin> S"
    and "\<And>d. oid (f d) = oid d"
    and "\<And>d. doc_ok d \<Longrightarrow> oid d = i \<Longrightarrow> (i \<in> T \<longrightarrow> available d \<noteq> None) \<Longrightarrow> doc_ok (f d)"
  shows "tracked S (updateOne i f ds)"
proof -
  have ids: "map oid (updateOne i f ds) = map oid ds"
    using assms(4) by (rule updateOne_oid)
  have "doc_ok x \<and> (oid x \<in> S \<longrightarrow> available x \<noteq> None)" if "x \<in> set (updateOne i f ds)" for x
  proof -
    from updateOne_set [OF that] show ?thesis
    proof
      assume "x \<in> set ds"
      with assms(1,2) show ?thesis
        by (auto simp: tracked_def wf_docs_def list_all_iff)
    next
      assume "\<exists>d \<in> set ds. oid d = i \<and> x = f d"
      then obtain d where d: "d \<in> set ds" "oid d = i" "x = f d" by blast
      with assms(1) have "doc_ok d" "i \<in> T \<longrightarrow> available d \<noteq> None"
        by (auto simp: tracked_def wf_docs_def list_all_iff)
      with d assms(5) have "doc_ok x" by blast
      moreover have "oid x = i" using d assms(4) by simp
      ultimately show ?thesis using assms(3) by simp
    qed
  qed
  with ids assms(1) show ?thesis
    by (auto simp: tracked_def wf_docs_def list_all_iff)
qed

lemma tracked_mono: "tracked T ds \<Longrightarrow> S \<subseteq> T \<Longrightarrow> tracked S ds"
  by (auto simp: tracked_def)

subsection \<open>The steps of the record processor keep the collection well formed\<close>

text \<open>
  Every update of the record processor leaves a document in order. The update of
  \<open>failImmediately\<close> sets the status \<open>failed\<close> and leaves \<open>available\<close> alone: it needs
  the document of the record to carry \<open>available\<close>, which \<open>tracked\<close> provides for the
  records of the batch.
\<close>

lemma processSkip_tracked:
  assumes "tracked S (docs w)" and "oid r \<notin> S"
  shows "tracked S (docs (snd (processSkip r e w)))"
  using assms
  by (auto simp: processSkip_def then_p_def getCollection_def update_def store_op_def newDate_def
      doc_ok_def split: option.splits intro!: tracked_updateOne [where T = S])

lemma processSuccess_tracked:
  assumes "tracked S (docs w)" and "oid r \<notin> S"
  shows "tracked S (docs (snd (processSuccess r w)))"
  using assms
  by (auto simp: processSuccess_def then_p_def getCollection_def update_def store_op_def newDate_def
      doc_ok_def split: option.splits intro!: tracked_updateOne [where T = S])

lemma processFailure_tracked:
  assumes "tracked S (docs w)" and "oid r \<notin> S"
  shows "tracked S (docs (snd (processFailure q r e w)))"
  using assms
  by (auto simp: processFailure_def then_p_def getCollection_def update_def store_op_def newDate_def
      doc_ok_def split: option.splits intro!: tracked_updateOne [where T = S])

lemma notifyFailedRecord_tracked:
  assumes "tracked S (docs w)" and "\<And>r. ro = Some r \<Longrightarrow> oid r \<notin> S"
  shows "tracked S (docs (snd (notifyFailedRecord q ro w)))"
  using assms
  by (auto simp: notifyFailedRecord_def then_p_def getCollection_def update_def store_op_def newDate_def
      reflect_def invoke_def resolve_def reject_def doc_ok_def Let_def
      split: option.splits sum.splits intro!: tracked_updateOne [where T = S])

lemma find_oid: "find (\<lambda>d. oid d = i) ds = Some u \<Longrightarrow> oid u = i"
  by (induction ds) (auto split: if_splits)

lemma failImmediately_tracked:
  assumes "tracked (insert (oid r) S) (docs w)" and "oid r \<notin> S"
  shows "tracked S (docs (snd (failImmediately q r e w)))"
proof -
  let ?f = "\<lambda>d. d\<lparr>status := failed, immediateFailure := Some True,
                          failureReason := Some (getFailReason e)\<rparr>"
  have weak: "tracked S (docs w)"
    using assms(1) by (rule tracked_mono) auto
  have upd: "tracked S (updateOne (oid r) ?f (docs w))"
    using assms by (intro tracked_updateOne [where T = "insert (oid r) S"]) (auto simp: doc_ok_def)
  have notify: "tracked S (docs (snd (notifyFailedRecord q ro w')))"
    if "tracked S (docs w')" and "\<And>u. ro = Some u \<Longrightarrow> oid u = oid r" for ro w'
    using that assms(2) by (intro notifyFailedRecord_tracked) auto
  show ?thesis
    using weak upd
    by (auto simp: failImmediately_def then_p_def getCollection_def update_def store_op_def
        findOne_def Let_def split: option.splits intro!: notify dest: find_oid)
qed

lemma then_p_snd_same:
  assumes "\<And>x w'. snd (f x w') = w'"
  shows "snd (then_p p f w) = snd (p w)"
  using assms by (simp add: then_p_def split: prod.splits sum.splits)

lemma stop_snd:
  "snd (then_p p (\<lambda>_. if c then reject e else resolve x) w) = snd (p w)"
  by (rule then_p_snd_same) (simp add: reject_def resolve_def)

lemma processSuccess_rejects:
  assumes "processSuccess r w = (Inl e, w')"
  shows "\<not> isSkip e \<and> \<not> isFail e"
  using assms
  by (auto simp: processSuccess_def then_p_def getCollection_def update_def store_op_def
      newDate_def split: option.splits)

lemma processRecord_tracked:
  assumes "tracked (insert (oid r) S) (docs w)" and "oid r \<notin> S"
  shows "tracked S (docs (snd (processRecord q r w)))"
proof -
  have weak: "tracked S (docs w)"
    using assms(1) by (rule tracked_mono) auto
  show ?thesis
  proof (cases "recordHasFailed q r")
    case True
    then show ?thesis
      using weak assms(2) by (auto simp: processRecord_def intro: notifyFailedRecord_tracked)
  next
    case False
    let ?w = "w\<lparr>calls := calls w @ [OnProcess (oid r)]\<rparr>"
    have t1: "tracked (insert (oid r) S) (docs ?w)" and t2: "tracked S (docs ?w)"
      using assms(1) weak by simp_all
    show ?thesis
    proof (cases "onProcess q r")
      case (Inl e)
      then have run: "processRecord q r w =
          (if isSkip e then processSkip r e ?w
           else if isFail e then failImmediately q r e ?w
           else then_p (processFailure q r e)
                 (\<lambda>_. if \<not> continueProcessingOnError q then reject STOP_PROCESSING
                      else resolve ()) ?w)"
        using False
        by (simp add: processRecord_def catch_p_def then_p_def resolve_def invoke_def)
      have "tracked S (docs (snd (processFailure q r e ?w)))"
        using t2 assms(2) by (rule processFailure_tracked)
      then have "tracked S (docs (snd (then_p (processFailure q r e)
                 (\<lambda>_. if \<not> continueProcessingOnError q then reject STOP_PROCESSING
                      else resolve ()) ?w)))"
        by (simp only: stop_snd)
      then show ?thesis
        using run t1 t2 assms(2)
        by (simp add: processSkip_tracked failImmediately_tracked)
    next
      case (Inr ai)
      let ?r = "attachInfo r ai"
      have id: "oid ?r = oid r"
        by (simp add: attachInfo_def split: option.splits)
      obtain res w1 where s: "processSuccess ?r ?w = (res, w1)"
        by (cases "processSuccess ?r ?w")
      have w1: "tracked S (docs w1)"
        using processSuccess_tracked [of S ?w ?r] t2 assms(2) id s by simp
      have "tracked S (docs (snd (processFailure q r e w1)))" for e
        using w1 assms(2) by (rule processFailure_tracked)
      then have fail: "tracked S (docs (snd (then_p (processFailure q r e)
                 (\<lambda>_. if \<not> continueProcessingOnError q then reject STOP_PROCESSING
                      else resolve ()) w1)))" for e
        by (simp only: stop_snd)
      have run: "processRecord q r w =
          (case res of
             Inr u \<Rightarrow> (Inr u, w1)
           | Inl e \<Rightarrow>
               (if isSkip e then processSkip r e w1
                else if isFail e then failImmediately q r e w1
                else then_p (processFailure q r e)
                 (\<lambda>_. if \<not> continueProcessingOnError q then reject STOP_PROCESSING
                      else resolve ()) w1))"
        using False Inr s
        by (simp add: processRecord_def catch_p_def then_p_def resolve_def invoke_def
            split: sum.splits)
      show ?thesis
        using run w1 fail processSuccess_rejects [of ?r ?w _ w1] s by (auto split: sum.splits)
    qed
  qed
qed

subsection \<open>A batch keeps the collection well formed\<close>

lemma mapSeries_Cons_snd:
  "snd (mapSeries f (x # xs) w) =
     (case f x w of (Inl e, w') \<Rightarrow> w' | (Inr y, w') \<Rightarrow> snd (mapSeries f xs w'))"
  by (simp add: then_p_def resolve_def split: prod.splits sum.splits)

lemma mapSeries_tracked:
  assumes "distinct (map oid rs)" and "tracked (oid ` set rs) (docs w)"
  shows "tracked {} (docs (snd (mapSeries (processRecord q) rs w)))"
  using assms
proof (induction rs arbitrary: w)
  case Nil
  then show ?case by (simp add: resolve_def)
next
  case (Cons r rs)
  obtain res w' where step: "processRecord q r w = (res, w')"
    by (cases "processRecord q r w")
  have "tracked (oid ` set rs) (docs (snd (processRecord q r w)))"
    using Cons.prems by (intro processRecord_tracked) auto
  then have w': "tracked (oid ` set rs) (docs w')"
    using step by simp
  show ?case
  proof (cases res)
    case (Inl e)
    then show ?thesis
      using step w' by (simp add: mapSeries_Cons_snd tracked_mono del: mapSeries.simps)
  next
    case (Inr u)
    then show ?thesis
      using step w' Cons.prems(1) Cons.IH [of w']
      by (simp add: mapSeries_Cons_snd del: mapSeries.simps)
  qed
qed

lemma filter_now_result:
  "\<exists>out w'. filter_now P rs w = (Inr out, w') \<and> docs w' = docs w \<and> faults w' = faults w \<and>
     calls w' = calls w \<and> set out \<subseteq> set rs \<and> (\<forall>r \<in> set out. \<exists>t. P r t) \<and>
     (distinct (map oid rs) \<longrightarrow> distinct (map oid out))"
proof (induction rs arbitrary: w)
  case Nil
  then show ?case by (simp add: resolve_def)
next
  case (Cons r rs)
  let ?w = "w\<lparr>clock := \<lambda>i. clock w (Suc i)\<rparr>"
  from Cons.IH [of ?w] obtain out w' where
    out: "filter_now P rs ?w = (Inr out, w')" "docs w' = docs w" "faults w' = faults w"
      "calls w' = calls w" "set out \<subseteq> set rs" "\<forall>r \<in> set out. \<exists>t. P r t"
      "distinct (map oid rs) \<longrightarrow> distinct (map oid out)"
    by auto
  have "filter_now P (r # rs) w = (Inr (if P r (clock w 0) then r # out else out), w')"
    using out(1) by (simp add: then_p_def newDate_def resolve_def)
  with out show ?case by auto
qed

lemma limit_set: "set (limit n xs) \<subseteq> set xs"
  by (auto simp: limit_def dest: in_set_takeD)

lemma limit_distinct: "distinct xs \<Longrightarrow> distinct (limit n xs)"
  by (simp add: limit_def)

lemma fetched_distinct:
  assumes "distinct (map oid ds)"
  shows "distinct (map oid (limit n (sort_key k (filter P ds))))"
proof -
  from assms have "distinct ds" and inj: "inj_on oid (set ds)"
    by (simp_all add: distinct_map)
  then have "distinct (limit n (sort_key k (filter P ds)))"
    by (simp add: limit_distinct)
  moreover have "set (limit n (sort_key k (filter P ds))) \<subseteq> set ds"
    using limit_set [of n "sort_key k (filter P ds)"] by auto
  ultimately show ?thesis
    using inj by (auto simp: distinct_map intro: inj_on_subset)
qed

lemma prioritizeRecords_result:
  assumes "\<forall>r \<in> set rs. continueProcessingOnError q \<longrightarrow> available r \<noteq> None"
  shows "\<exists>out w'. prioritizeRecords q rs w = (Inr out, w') \<and> docs w' = docs w \<and>
     faults w' = faults w \<and> calls w' = calls w \<and> set out \<subseteq> set rs \<and>
     (\<forall>r \<in> set out. available r \<noteq> None) \<and>
     (distinct (map oid rs) \<longrightarrow> distinct (map oid out))"
proof (cases "continueProcessingOnError q")
  case True
  then show ?thesis
    using assms by (simp add: prioritizeRecords_def resolve_def)
next
  case False
  have avail: "(\<exists>t. availableBy r t) \<Longrightarrow> available r \<noteq> None" for r
    by (auto simp: availableBy_def split: option.splits)
  show ?thesis
  proof (cases "find (\<lambda>r. status r = failed) rs")
    case None
    then show ?thesis
      using False filter_now_result [of availableBy rs w] avail
      by (auto simp: prioritizeRecords_def then_p_def resolve_def)
  next
    case (Some f)
    let ?w = "w\<lparr>clock := \<lambda>i. clock w (Suc i)\<rparr>"
    show ?thesis
    proof (cases "after f (clock w 0)")
      case True
      then show ?thesis
        using False Some by (simp add: prioritizeRecords_def then_p_def resolve_def newDate_def)
    next
      case blocked: False
      then show ?thesis
        using False Some filter_now_result [of availableBy rs ?w] avail
        by (auto simp: prioritizeRecords_def then_p_def resolve_def newDate_def)
    qed
  qed
qed

lemma getNextBatch_result:
  assumes "getNextBatch q w = (res, w')"
  shows "docs w' = docs w \<and>
     (\<forall>batch. res = Inr batch \<longrightarrow>
        set batch \<subseteq> set (docs w) \<and> (\<forall>r \<in> set batch. available r \<noteq> None) \<and>
        (distinct (map oid (docs w)) \<longrightarrow> distinct (map oid batch)))"
proof -
  let ?now = "clock w 0"
  let ?w1 = "w\<lparr>clock := \<lambda>i. clock w (Suc i)\<rparr>"
  let ?qy = "if continueProcessingOnError q
             then Both (StatusIn [received, failed, skipped]) (AvailableLte ?now)
             else Or (StatusEq failed) (Both (StatusIn [received, failed, skipped]) (AvailableLte ?now))"
  let ?fetched = "limit (batchSize q) (sort_key receivedDate (filter (matches ?qy) (docs w)))"
  have sub: "set ?fetched \<subseteq> {d \<in> set (docs w). matches ?qy d}"
    using limit_set [of "batchSize q" "sort_key receivedDate (filter (matches ?qy) (docs w))"]
    by auto
  then have pre: "\<forall>r \<in> set ?fetched. continueProcessingOnError q \<longrightarrow> available r \<noteq> None"
    by (auto split: option.splits)
  have run: "getNextBatch q w =
     (case faults w 0 of
        Some d \<Rightarrow> (Inl (Err d), ?w1\<lparr>faults := \<lambda>i. faults w (Suc i)\<rparr>)
      | None \<Rightarrow>
         (case faults w 1 of
            Some d \<Rightarrow> (Inl (Err d), ?w1\<lparr>faults := \<lambda>i. faults w (Suc (Suc i))\<rparr>)
          | None \<Rightarrow> prioritizeRecords q ?fetched (?w1\<lparr>faults := \<lambda>i. faults w (Suc (Suc i))\<rparr>)))"
    by (simp add: getNextBatch_def then_p_def newDate_def getCollection_def store_op_def
        find_sorted_def Let_def split: option.splits)
  show ?thesis
  proof (cases "faults w 0 = None \<and> faults w 1 = None")
    case False
    then show ?thesis
      using assms run by (auto split: option.splits)
  next
    case True
    let ?w2 = "?w1\<lparr>faults := \<lambda>i. faults w (Suc (Suc i))\<rparr>"
    from prioritizeRecords_result [OF pre, of ?w2] obtain out w'' where
      out: "prioritizeRecords q ?fetched ?w2 = (Inr out, w'')" "docs w'' = docs ?w2"
        "set out \<subseteq> set ?fetched" "\<forall>r \<in> set out. available r \<noteq> None"
        "distinct (map oid ?fetched) \<longrightarrow> distinct (map oid out)"
      by blast
    have "res = Inr out" "w' = w''"
      using assms run True out(1) by simp_all
    moreover have "distinct (map oid (docs w)) \<longrightarrow> distinct (map oid out)"
      using out(5) fetched_distinct by blast
    ultimately show ?thesis
      using out sub by auto
  qed
qed

lemma getNextBatch_tracked:
  assumes "getNextBatch q w = (Inr batch, w')" and "wf_docs (docs w)"
  shows "tracked (oid ` set batch) (docs w') \<and> distinct (map oid batch)"
proof -
  from getNextBatch_result [OF assms(1)] assms(2) have
    same: "docs w' = docs w" and sub: "set batch \<subseteq> set (docs w)"
    and av: "\<forall>r \<in> set batch. available r \<noteq> None" and dist: "distinct (map oid batch)"
    by (auto simp: wf_docs_def)
  have inj: "inj_on oid (set (docs w))"
    using assms(2) by (simp add: wf_docs_def distinct_map)
  have "available d \<noteq> None" if "d \<in> set (docs w)" and "oid d \<in> oid ` set batch" for d
  proof -
    from that(2) obtain r where r: "r \<in> set batch" "oid d = oid r" by auto
    with sub that(1) inj have "d = r" by (auto dest: inj_onD)
    with r av show ?thesis by simp
  qed
  with same assms(2) dist show ?thesis
    by (simp add: tracked_def)
qed

lemma processNextBatch_run:
  "processNextBatch q w =
     (case preHook q w of
        (Inl e, w0) \<Rightarrow> (if e \<noteq> STOP_PROCESSING then Inl e else Inr (), w0)
      | (Inr u, w0) \<Rightarrow>
          (case getNextBatch q w0 of
             (Inl e, w1) \<Rightarrow> (if e \<noteq> STOP_PROCESSING then Inl e else Inr (), w1)
           | (Inr batch, w1) \<Rightarrow>
               (case mapSeries (processRecord q) batch w1 of
                  (Inl e, w2) \<Rightarrow> (if e \<noteq> STOP_PROCESSING then Inl e else Inr (), w2)
                | (Inr us, w2) \<Rightarrow> (Inr (), w2))))"
  by (simp add: processNextBatch_def catch_p_def then_p_def resolve_def reject_def
      split: prod.splits sum.splits)

lemma preHook_docs: "docs (snd (preHook q w)) = docs w"
  by (simp add: preHook_def invoke_def resolve_def split: option.splits)

lemma tracked_empty: "tracked {} ds = wf_docs ds"
  by (simp add: tracked_def)

lemma processNextBatch_wf:
  assumes "wf_docs (docs w)"
  shows "wf_docs (docs (snd (processNextBatch q w)))"
proof -
  obtain r0 w0 where pre: "preHook q w = (r0, w0)"
    by (cases "preHook q w")
  have wf0: "wf_docs (docs w0)"
    using preHook_docs [of q w] pre assms by simp
  obtain r1 w1 where get: "getNextBatch q w0 = (r1, w1)"
    by (cases "getNextBatch q w0")
  have wf1: "wf_docs (docs w1)"
    using getNextBatch_result [OF get] wf0 by simp
  show ?thesis
  proof (cases r0)
    case (Inl e)
    then show ?thesis
      using pre wf0 by (simp add: processNextBatch_run)
  next
    case (Inr u)
    show ?thesis
    proof (cases r1)
      case (Inl e)
      then show ?thesis
        using pre get Inr wf1 by (simp add: processNextBatch_run)
    next
      case batch: (Inr batch)
      from getNextBatch_tracked [of q w0 batch w1] get batch wf0
      have "tracked (oid ` set batch) (docs w1)" and "distinct (map oid batch)"
        by simp_all
      then have "wf_docs (docs (snd (mapSeries (processRecord q) batch w1)))"
        using mapSeries_tracked [of batch w1 q] by (simp add: tracked_empty)
      then show ?thesis
        using pre get Inr batch
        by (auto simp: processNextBatch_run split: prod.splits sum.splits)
    qed
  qed
qed

subsection \<open>The other operations keep the collection well formed\<close>

lemma fold_max_upper: "a \<le> fold max xs a \<and> (\<forall>x \<in> set xs. x \<le> fold max xs (a::nat))"
proof (induction xs arbitrary: a)
  case Nil
  show ?case by simp
next
  case (Cons y ys)
  from Cons.IH [of "max y a"] show ?case by auto
qed

lemma newId_fresh: "newId ds \<notin> set (map oid ds)"
proof
  assume "newId ds \<in> set (map oid ds)"
  then have "newId ds \<le> fold max (map oid ds) 0"
    using fold_max_upper [of 0 "map oid ds"] by blast
  then show False by (simp add: newId_def)
qed

lemma enqueue_wf:
  assumes "wf_docs (docs w)"
  shows "wf_docs (docs (snd (enqueue payload w)))"
  using assms newId_fresh [of "docs w"]
  by (auto simp: enqueue_def insertNewRecord_def then_p_def getCollection_def store_op_def
      newDate_def insert_doc_def resolve_def wf_docs_def doc_ok_def split: option.splits)

lemma cleanup_wf:
  assumes "wf_docs (docs w)"
  shows "wf_docs (docs (snd (cleanup q w)))"
  using assms
  by (auto simp: cleanup_def then_p_def getCollection_def store_op_def newDate_def remove_def
      resolve_def wf_docs_def list_all_iff distinct_map_filter split: option.splits)

lemma resetRecords_wf:
  assumes "wf_docs (docs w)"
  shows "wf_docs (docs (snd (resetRecords ids w)))"
proof -
  have "wf_docs (map (\<lambda>d. if oid d \<in> set ids then f d else d) (docs w))"
    if "\<And>d. oid (f d) = oid d" and "\<And>d. doc_ok (f d)" for f
  proof -
    have "map oid (map (\<lambda>d. if oid d \<in> set ids then f d else d) (docs w)) = map oid (docs w)"
      using that(1) by (induction "docs w") auto
    then show ?thesis
      using assms that(2) by (auto simp: wf_docs_def list_all_iff simp del: map_map)
  qed
  then show ?thesis
    using assms
    by (auto simp: resetRecords_def then_p_def getCollection_def store_op_def newDate_def
        update_multi_def resolve_def doc_ok_def split: option.splits)
qed

lemma updateOne_keeps:
  "(\<And>d. g (f d) = g d) \<Longrightarrow> map g (updateOne i f ds) = map g ds"
  by (induction ds) auto

lemma notifyFailedRecord_available:
  "map available (docs (snd (notifyFailedRecord q ro w))) = map available (docs w)"
  by (auto simp: notifyFailedRecord_def then_p_def getCollection_def update_def store_op_def
      newDate_def reflect_def invoke_def resolve_def reject_def Let_def updateOne_keeps
      split: option.splits sum.splits)

subsection \<open>Selection when the clock stands\<close>

lemma filter_now_frozen:
  "clock w = (\<lambda>_. now) \<Longrightarrow> filter_now P rs w = (Inr (filter (\<lambda>r. P r now) rs), w)"
  by (induction rs) (simp_all add: resolve_def then_p_def newDate_frozen)

lemma prioritizeRecords_frozen:
  assumes "clock w = (\<lambda>_. now)" and "\<not> continueProcessingOnError q"
  shows "prioritizeRecords q rs w =
     (Inr (case find (\<lambda>r. status r = failed) rs of
             None \<Rightarrow> filter (\<lambda>r. availableBy r now) rs
           | Some firstFailed \<Rightarrow>
               if after firstFailed now then [] else filter (\<lambda>r. availableBy r now) rs), w)"
  using assms
  by (simp add: prioritizeRecords_def then_p_def resolve_def newDate_frozen filter_now_frozen
      split: option.splits)

lemma find_sorted_reliable:
  "faults w = (\<lambda>_. None) \<Longrightarrow>
   find_sorted qy n w = (Inr (limit n (sort_key receivedDate (filter (matches qy) (docs w)))), w)"
  by (simp add: find_sorted_def store_op_reliable)

lemma getNextBatch_frozen:
  assumes "clock w = (\<lambda>_. now)" and "faults w = (\<lambda>_. None)"
    and "\<not> continueProcessingOnError q"
  shows "getNextBatch q w =
     prioritizeRecords q
       (limit (batchSize q)
          (sort_key receivedDate
             (filter (\<lambda>r. status r = failed \<or>
                          status r \<in> {received, failed, skipped} \<and> availableBy r now)
                (docs w)))) w"
proof -
  have "matches (Or (StatusEq failed)
            (Both (StatusIn [received, failed, skipped]) (AvailableLte now))) =
        (\<lambda>r. status r = failed \<or>
             status r \<in> {received, failed, skipped} \<and> availableBy r now)"
    by (auto simp: availableBy_def fun_eq_iff)
  then show ?thesis
    using assms
    by (simp add: getNextBatch_def then_p_def newDate_frozen getCollection_reliable
        find_sorted_reliable)
qed

lemma sorted_fetch:
  "sorted (map receivedDate (filter P (limit n (sort_key receivedDate xs))))"
proof -
  have "sorted (map receivedDate (sort_key receivedDate xs))"
    by (rule sorted_sort_key)
  then have "sorted (map receivedDate (limit n (sort_key receivedDate xs)))"
    by (simp add: limit_def take_map [symmetric])
  then show ?thesis
    by (rule sorted_filter)
qed

lemma find_Some_set: "find P xs = Some x \<Longrightarrow> x \<in> set xs \<and> P x"
  by (induction xs) (auto split: if_splits)

subsection \<open>A tick on a working store\<close>

text \<open>
  On a working store, processing a record of the collection is resolved or rejected with
  the sentinel, and so is the series over a batch.
\<close>

lemma findOne_reliable:
  "faults w = (\<lambda>_. None) \<Longrightarrow> findOne i w = (Inr (find (\<lambda>d. oid d = i) (docs w)), w)"
  by (simp add: findOne_def store_op_reliable)

lemma find_present: "i \<in> oid ` set ds \<Longrightarrow> find (\<lambda>d. oid d = i) ds \<noteq> None"
  by (induction ds) auto

lemma notifyFailedRecord_reliable:
  assumes "faults w = (\<lambda>_. None)" and "onFailure q (Some r) \<noteq> Inl Nullish"
  shows "fst (notifyFailedRecord q (Some r) w) = Inr () \<and>
     faults (snd (notifyFailedRecord q (Some r) w)) = (\<lambda>_. None) \<and>
     map oid (docs (snd (notifyFailedRecord q (Some r) w))) = map oid (docs w)"
  using assms
  by (auto simp: notifyFailedRecord_def then_p_def reflect_def resolve_def invoke_def
      newDate_def getCollection_reliable update_reliable updateOne_oid
      split: sum.splits)

lemma failImmediately_reliable:
  assumes "faults w = (\<lambda>_. None)" and "oid r \<in> oid ` set (docs w)"
    and "\<forall>ro. onFailure q ro \<noteq> Inl Nullish"
  shows "fst (failImmediately q r e w) = Inr () \<and>
     faults (snd (failImmediately q r e w)) = (\<lambda>_. None) \<and>
     map oid (docs (snd (failImmediately q r e w))) = map oid (docs w)"
proof -
  let ?f = "\<lambda>d. d\<lparr>status := failed, immediateFailure := Some True,
                          failureReason := Some (getFailReason e)\<rparr>"
  let ?w = "w\<lparr>docs := updateOne (oid r) ?f (docs w)\<rparr>"
  have ids: "map oid (docs ?w) = map oid (docs w)"
    by (simp add: updateOne_oid)
  then have "oid r \<in> oid ` set (docs ?w)"
    using assms(2) by (metis set_map)
  then obtain u where u: "find (\<lambda>d. oid d = oid r) (docs ?w) = Some u"
    using find_present by fastforce
  have "failImmediately q r e w = notifyFailedRecord q (Some u) ?w"
    using assms(1) u
    by (simp add: failImmediately_def then_p_def getCollection_reliable update_reliable
        findOne_reliable)
  then show ?thesis
    using notifyFailedRecord_reliable [of ?w q u] assms(1,3) ids by simp
qed

lemma processRecord_reliable:
  assumes "faults w = (\<lambda>_. None)" and "oid r \<in> oid ` set (docs w)"
    and "\<forall>ro. onFailure q ro \<noteq> Inl Nullish"
  shows "(fst (processRecord q r w) = Inr () \<or>
          fst (processRecord q r w) = Inl STOP_PROCESSING) \<and>
     faults (snd (processRecord q r w)) = (\<lambda>_. None) \<and>
     map oid (docs (snd (processRecord q r w))) = map oid (docs w)"
proof (cases "recordHasFailed q r")
  case True
  then show ?thesis
    using notifyFailedRecord_reliable [OF assms(1), of q r] assms(3)
    by (simp add: processRecord_def)
next
  case False
  let ?w = "w\<lparr>calls := calls w @ [OnProcess (oid r)]\<rparr>"
  have w: "faults ?w = (\<lambda>_. None)" "oid r \<in> oid ` set (docs ?w)"
    using assms by simp_all
  show ?thesis
  proof (cases "onProcess q r")
    case (Inr ai)
    then show ?thesis
      using False assms(1)
      by (simp add: processRecord_def catch_p_def then_p_def resolve_def invoke_def
          processSuccess_def getCollection_reliable update_reliable newDate_def updateOne_oid
          attachInfo_def split: option.splits)
  next
    case (Inl e)
    then have run: "processRecord q r w =
          (if isSkip e then processSkip r e ?w
           else if isFail e then failImmediately q r e ?w
           else then_p (processFailure q r e)
                 (\<lambda>_. if \<not> continueProcessingOnError q then reject STOP_PROCESSING
                      else resolve ()) ?w)"
      using False
      by (simp add: processRecord_def catch_p_def then_p_def resolve_def invoke_def)
    show ?thesis
      using run failImmediately_reliable [OF w assms(3), of e] w(1)
      by (simp add: processSkip_def processFailure_def then_p_def getCollection_reliable
          update_reliable newDate_def updateOne_oid resolve_def reject_def Let_def)
  qed
qed

lemma mapSeries_Cons_run:
  "mapSeries f (x # xs) w =
     (case f x w of
        (Inl e, w') \<Rightarrow> (Inl e, w')
      | (Inr y, w') \<Rightarrow>
          (case mapSeries f xs w' of
             (Inl e, w'') \<Rightarrow> (Inl e, w'')
           | (Inr ys, w'') \<Rightarrow> (Inr (y # ys), w'')))"
  by (simp add: then_p_def resolve_def split: prod.splits sum.splits)

lemma mapSeries_reliable:
  assumes "\<forall>ro. onFailure q ro \<noteq> Inl Nullish"
    and "faults w = (\<lambda>_. None)" and "oid ` set rs \<subseteq> oid ` set (docs w)"
    and "mapSeries (processRecord q) rs w = (Inl e, w'')"
  shows "e = STOP_PROCESSING"
  using assms
proof (induction rs arbitrary: w)
  case Nil
  then show ?case by (simp add: resolve_def)
next
  case (Cons r rs)
  obtain res w' where step: "processRecord q r w = (res, w')"
    by (cases "processRecord q r w")
  from processRecord_reliable [of w r q] Cons.prems(1,2,3) step
  have res: "res = Inr () \<or> res = Inl STOP_PROCESSING"
    and w': "faults w' = (\<lambda>_. None)" "map oid (docs w') = map oid (docs w)"
    by simp_all
  from w'(2) have "oid ` set (docs w') = oid ` set (docs w)"
    by (metis set_map)
  with Cons.prems(3) have sub: "oid ` set rs \<subseteq> oid ` set (docs w')"
    by simp
  show ?case
  proof (cases res)
    case (Inl e')
    then show ?thesis
      using res step Cons.prems(4) by (simp add: mapSeries_Cons_run del: mapSeries.simps)
  next
    case (Inr u)
    then have "mapSeries (processRecord q) rs w' = (Inl e, w'')"
      using step Cons.prems(4)
      by (auto simp: mapSeries_Cons_run simp del: mapSeries.simps split: prod.splits sum.splits)
    with Cons.IH [OF Cons.prems(1) w'(1) sub] show ?thesis by simp
  qed
qed

lemma preHook_faults:
  "faults (snd (preHook q w)) = faults w"
  by (simp add: preHook_def invoke_def resolve_def split: option.splits)

lemma getNextBatch_reliable:
  assumes "faults w = (\<lambda>_. None)"
  shows "\<exists>batch w1. getNextBatch q w = (Inr batch, w1) \<and> faults w1 = (\<lambda>_. None) \<and>
     docs w1 = docs w \<and> set batch \<subseteq> set (docs w)"
proof -
  let ?now = "clock w 0"
  let ?w1 = "w\<lparr>clock := \<lambda>i. clock w (Suc i)\<rparr>"
  let ?qy = "if continueProcessingOnError q
             then Both (StatusIn [received, failed, skipped]) (AvailableLte ?now)
             else Or (StatusEq failed) (Both (StatusIn [received, failed, skipped]) (AvailableLte ?now))"
  let ?fetched = "limit (batchSize q) (sort_key receivedDate (filter (matches ?qy) (docs w)))"
  have sub: "set ?fetched \<subseteq> {d \<in> set (docs w). matches ?qy d}"
    using limit_set [of "batchSize q" "sort_key receivedDate (filter (matches ?qy) (docs w))"]
    by auto
  then have pre: "\<forall>r \<in> set ?fetched. continueProcessingOnError q \<longrightarrow> available r \<noteq> None"
    by (auto split: option.splits)
  have run: "getNextBatch q w = prioritizeRecords q ?fetched ?w1"
    using assms
    by (simp add: getNextBatch_def then_p_def newDate_def getCollection_reliable
        find_sorted_reliable Let_def)
  from prioritizeRecords_result [OF pre, of ?w1] obtain out w' where
    "prioritizeRecords q ?fetched ?w1 = (Inr out, w')" "docs w' = docs ?w1"
    "faults w' = faults ?w1" "set out \<subseteq> set ?fetched"
    by blast
  with run sub assms show ?thesis by auto
qed

lemma processNextBatch_reliable:
  assumes "faults w = (\<lambda>_. None)" and "fst (preHook q w) = Inr ()"
    and "\<forall>ro. onFailure q ro \<noteq> Inl Nullish"
  shows "fst (processNextBatch q w) = Inr ()"
proof -
  obtain w0 where pre: "preHook q w = (Inr (), w0)"
    using assms(2) by (cases "preHook q w") simp
  have w0: "faults w0 = (\<lambda>_. None)"
    using preHook_faults [of q w] pre assms(1) by simp
  from getNextBatch_reliable [OF w0, of q] obtain batch w1 where
    get: "getNextBatch q w0 = (Inr batch, w1)" and w1: "faults w1 = (\<lambda>_. None)"
    and sub: "set batch \<subseteq> set (docs w1)"
    by auto
  obtain r2 w2 where run: "mapSeries (processRecord q) batch w1 = (r2, w2)"
    by (cases "mapSeries (processRecord q) batch w1")
  have "e = STOP_PROCESSING" if "r2 = Inl e" for e
    using mapSeries_reliable [OF assms(3) w1, of batch e w2] sub run that by auto
  then show ?thesis
    using pre get run by (auto simp: processNextBatch_run split: sum.splits)
qed

subsection \<open>Hook calls and retry counts\<close>

lemma notifyFailedRecord_calls:
  "calls (snd (notifyFailedRecord q ro w)) = calls w @ [OnFailure (map_option oid ro)]"
  by (auto simp: notifyFailedRecord_def promise_defs Let_def split: option.splits sum.splits)

lemma processRecord_rejected:
  assumes "\<not> recordHasFailed q r" and "onProcess q r = Inl e"
  shows "processRecord q r w =
     (if isSkip e then processSkip r e (w\<lparr>calls := calls w @ [OnProcess (oid r)]\<rparr>)
      else if isFail e then failImmediately q r e (w\<lparr>calls := calls w @ [OnProcess (oid r)]\<rparr>)
      else then_p (processFailure q r e)
             (\<lambda>_. if \<not> continueProcessingOnError q then reject STOP_PROCESSING
                  else resolve ())
             (w\<lparr>calls := calls w @ [OnProcess (oid r)]\<rparr>))"
  using assms by (simp add: processRecord_def catch_p_def then_p_def resolve_def invoke_def)

lemma processSkip_retryCount:
  "map retryCount (docs (snd (processSkip r e w))) = map retryCount (docs w)"
  by (auto simp: processSkip_def promise_defs updateOne_keeps split: option.splits)

lemma notifyFailedRecord_retryCount:
  "map retryCount (docs (snd (notifyFailedRecord q ro w))) = map retryCount (docs w)"
  by (auto simp: notifyFailedRecord_def promise_defs Let_def updateOne_keeps
      split: option.splits sum.splits)

lemma failImmediately_retryCount:
  "map retryCount (docs (snd (failImmediately q r e w))) = map retryCount (docs w)"
  by (auto simp: failImmediately_def then_p_def getCollection_def update_def findOne_def
      store_op_def Let_def updateOne_keeps notifyFailedRecord_retryCount split: option.splits)

lemma updateOne_map_cong:
  "(\<And>d. g (f d) = g (f' d)) \<Longrightarrow> map g (updateOne i f ds) = map g (updateOne i f' ds)"
  by (induction ds) auto

subsection \<open>A rejected record ends the series\<close>

lemma mapSeries_stops:
  assumes "mapSeries f pre w1 = (Inr us, w2)" and "f r w2 = (Inl e, w3)"
  shows "mapSeries f (pre @ r # post) w1 = (Inl e, w3)"
  using assms
proof (induction pre arbitrary: w1 us)
  case Nil
  then show ?case
    by (simp add: resolve_def mapSeries_Cons_run del: mapSeries.simps(2))
next
  case (Cons x xs)
  obtain res w' where step: "f x w1 = (res, w')"
    by (cases "f x w1")
  show ?case
  proof (cases res)
    case (Inl e')
    then show ?thesis
      using step Cons.prems(1) by (simp add: mapSeries_Cons_run del: mapSeries.simps(2))
  next
    case (Inr y)
    then obtain ys where "mapSeries f xs w' = (Inr ys, w2)"
      using step Cons.prems(1)
      by (auto simp: mapSeries_Cons_run simp del: mapSeries.simps(2)
          split: prod.splits sum.splits)
    from Cons.IH [OF this Cons.prems(2)] show ?thesis
      using step Inr by (simp add: mapSeries_Cons_run del: mapSeries.simps(2))
  qed
qed

lemma processFailure_calls:
  "calls (snd (processFailure q r e w)) = calls w"
  by (auto simp: processFailure_def promise_defs Let_def split: option.splits)

lemma processSuccess_calls:
  "calls (snd (processSuccess r w)) = calls w"
  by (auto simp: processSuccess_def promise_defs split: option.splits)

lemma processSkip_calls:
  "calls (snd (processSkip r e w)) = calls w"
  by (auto simp: processSkip_def promise_defs split: option.splits)

lemma failImmediately_calls:
  "\<exists>rest. calls (snd (failImmediately q r e w)) = calls w @ rest"
  by (auto simp: failImmediately_def then_p_def getCollection_def update_def findOne_def
      store_op_def Let_def notifyFailedRecord_calls split: option.splits)

lemma processRecord_calls:
  assumes "\<not> recordHasFailed q r"
  shows "\<exists>rest. calls (snd (processRecord q r w)) = calls w @ OnProcess (oid r) # rest"
proof (cases "onProcess q r")
  case (Inl e)
  let ?w = "w\<lparr>calls := calls w @ [OnProcess (oid r)]\<rparr>"
  from failImmediately_calls [of q r e ?w]
  obtain rest where "calls (snd (failImmediately q r e ?w)) = calls w @ OnProcess (oid r) # rest"
    by auto
  then show ?thesis
    using assms Inl
    by (auto simp: processRecord_rejected processSkip_calls processFailure_calls stop_snd)
next
  case (Inr ai)
  let ?w = "w\<lparr>calls := calls w @ [OnProcess (oid r)]\<rparr>"
  obtain res w1 where s: "processSuccess (attachInfo r ai) ?w = (res, w1)"
    by (cases "processSuccess (attachInfo r ai) ?w")
  have c1: "calls w1 = calls w @ [OnProcess (oid r)]"
    using processSuccess_calls [of "attachInfo r ai" ?w] s by simp
  show ?thesis
  proof (cases res)
    case ok: (Inr u)
    then show ?thesis
      using assms Inr s c1
      by (simp add: processRecord_def catch_p_def then_p_def resolve_def invoke_def)
  next
    case (Inl e)
    then have "processRecord q r w =
        then_p (processFailure q r e)
          (\<lambda>_. if \<not> continueProcessingOnError q then reject STOP_PROCESSING else resolve ())
          w1"
      using assms Inr s processSuccess_rejects [of "attachInfo r ai" ?w e w1]
      by (simp add: processRecord_def catch_p_def then_p_def resolve_def invoke_def)
    then show ?thesis
      using c1 by (simp add: stop_snd processFailure_calls)
  qed
qed

lemma processRecord_success_rejected:
  assumes "\<not> recordHasFailed q r" and "onProcess q r = Inr ai"
    and "processSuccess (attachInfo r ai) (w\<lparr>calls := calls w @ [OnProcess (oid r)]\<rparr>) =
      (Inl e, w1)"
  shows "processRecord q r w =
     then_p (processFailure q r e)
       (\<lambda>_. if \<not> continueProcessingOnError q then reject STOP_PROCESSING else resolve ())
       w1"
  using assms processSuccess_rejects [OF assms(3)]
  by (simp add: processRecord_def catch_p_def then_p_def resolve_def invoke_def)

section \<open>The claims\<close>

subsection \<open>Batch selection\<close>

text \<open>
  Claim C1, as stated, fails when the fetched set holds a failed record that is still
  backed off but is not the first failed record: with the clock at 50, the query fetches a
  failed record available since 0 and a later failed record available at 100, and the batch
  is the first record, not the empty batch.
\<close>

theorem later_failed_record_does_not_stall:
  "fst (find_sorted
          (Or (StatusEq failed) (Both (StatusIn [received, failed, skipped]) (AvailableLte 50)))
          (batchSize example_opts)
          (example_world
             [doc 1 failed 1 (Some 0) (Some 1), doc 2 failed 2 (Some 100) (Some 1)])) =
     Inr [doc 1 failed 1 (Some 0) (Some 1), doc 2 failed 2 (Some 100) (Some 1)] \<and>
   status (doc 2 failed 2 (Some 100) (Some 1)) = failed \<and>
   after (doc 2 failed 2 (Some 100) (Some 1)) 50 \<and>
   \<not> continueProcessingOnError example_opts \<and>
   fst (getNextBatch example_opts
          (example_world
             [doc 1 failed 1 (Some 0) (Some 1), doc 2 failed 2 (Some 100) (Some 1)])) =
     Inr [doc 1 failed 1 (Some 0) (Some 1)]"
  by (simp add: promise_defs queue_defs example_defs)

text \<open>
  Claim C1, amended. In strict mode, with a positive \<open>batchSize\<close>, the clock at \<open>now\<close> and
  a working store, the selection fetches the records that are failed, or whose status is
  one of received, failed, skipped and whose \<open>available\<close> is at most \<open>now\<close>, sorted by
  \<open>receivedDate\<close> and cut to \<open>batchSize\<close>. When the first failed record of the fetched
  list has its \<open>available\<close> after \<open>now\<close>, the batch is empty; otherwise the batch is the
  fetched list filtered to the records with \<open>available\<close> at most \<open>now\<close>. The batch is in
  \<open>receivedDate\<close> order and has at most \<open>batchSize\<close> records.
\<close>

theorem strict_selection:
  assumes "\<not> continueProcessingOnError q" and "0 < batchSize q"
    and "clock w = (\<lambda>_. now)" and "faults w = (\<lambda>_. None)"
    and "fetched =
       take (batchSize q)
         (sort_key receivedDate
            (filter (\<lambda>r. status r = failed \<or>
                         status r \<in> {received, failed, skipped} \<and> availableBy r now)
               (docs w)))"
  shows "\<exists>batch. fst (getNextBatch q w) = Inr batch \<and>
     batch =
       (case find (\<lambda>r. status r = failed) fetched of
          None \<Rightarrow> filter (\<lambda>r. availableBy r now) fetched
        | Some firstFailed \<Rightarrow>
            if after firstFailed now then [] else filter (\<lambda>r. availableBy r now) fetched) \<and>
     sorted (map receivedDate batch) \<and> length batch \<le> batchSize q"
proof -
  have lim: "fetched = limit (batchSize q)
         (sort_key receivedDate
            (filter (\<lambda>r. status r = failed \<or>
                         status r \<in> {received, failed, skipped} \<and> availableBy r now)
               (docs w)))"
    using assms(2,5) by (simp add: limit_def)
  have run: "getNextBatch q w = prioritizeRecords q fetched w"
    using assms(1,3,4) lim by (simp add: getNextBatch_frozen)
  have srt: "sorted (map receivedDate (filter (\<lambda>r. availableBy r now) fetched))"
    unfolding lim by (rule sorted_fetch)
  have len: "length (filter (\<lambda>r. availableBy r now) fetched) \<le> batchSize q"
    using assms(5) by (simp add: le_trans [OF length_filter_le])
  show ?thesis
    using run srt len assms(1,3)
    by (simp add: prioritizeRecords_frozen split: option.splits)
qed

text \<open>
  The spec's example for claim C1: a backed-off failed head stalls two received records; once
  the head is available, the batch resumes in \<open>receivedDate\<close> order and a straggler that is
  not yet available is dropped.
\<close>

theorem strict_selection_witness:
  "\<not> continueProcessingOnError example_opts \<and> 0 < batchSize example_opts \<and>
   clock (example_world
      [doc 1 failed 1 (Some 100) (Some 1), doc 2 received 2 (Some 0) None,
       doc 3 received 3 (Some 0) None]) = (\<lambda>_. 50) \<and>
   faults (example_world
      [doc 1 failed 1 (Some 100) (Some 1), doc 2 received 2 (Some 0) None,
       doc 3 received 3 (Some 0) None]) = (\<lambda>_. None) \<and>
   fst (getNextBatch example_opts (example_world
      [doc 1 failed 1 (Some 100) (Some 1), doc 2 received 2 (Some 0) None,
       doc 3 received 3 (Some 0) None])) = Inr [] \<and>
   fst (getNextBatch example_opts (example_world
      [doc 1 failed 1 (Some 20) (Some 1), doc 2 received 2 (Some 0) None,
       doc 3 received 3 (Some 70) None])) =
     Inr [doc 1 failed 1 (Some 20) (Some 1), doc 2 received 2 (Some 0) None]"
proof -
  let ?w = "example_world
      [doc 1 failed 1 (Some 100) (Some 1), doc 2 received 2 (Some 0) None,
       doc 3 received 3 (Some 0) None]"
  let ?w' = "example_world
      [doc 1 failed 1 (Some 20) (Some 1), doc 2 received 2 (Some 0) None,
       doc 3 received 3 (Some 70) None]"
  have h: "\<not> continueProcessingOnError example_opts" "0 < batchSize example_opts"
    "clock ?w = (\<lambda>_. 50)" "faults ?w = (\<lambda>_. None)"
    and h': "clock ?w' = (\<lambda>_. 50)" "faults ?w' = (\<lambda>_. None)"
    by (simp_all add: example_defs)
  have f: "[doc 1 failed 1 (Some 100) (Some 1), doc 2 received 2 (Some 0) None,
       doc 3 received 3 (Some 0) None] =
    take (batchSize example_opts)
         (sort_key receivedDate
            (filter (\<lambda>r. status r = failed \<or>
                         status r \<in> {received, failed, skipped} \<and> availableBy r 50)
               (docs ?w)))"
    by (simp add: example_defs availableBy_def)
  have f': "[doc 1 failed 1 (Some 20) (Some 1), doc 2 received 2 (Some 0) None] =
    take (batchSize example_opts)
         (sort_key receivedDate
            (filter (\<lambda>r. status r = failed \<or>
                         status r \<in> {received, failed, skipped} \<and> availableBy r 50)
               (docs ?w')))"
    by (simp add: example_defs availableBy_def)
  from strict_selection [OF h f]
  have 1: "fst (getNextBatch example_opts ?w) = Inr []"
    by (simp add: doc_def after_def)
  from strict_selection [OF h(1,2) h' f']
  have 2: "fst (getNextBatch example_opts ?w') =
     Inr [doc 1 failed 1 (Some 20) (Some 1), doc 2 received 2 (Some 0) None]"
    by (simp add: doc_def after_def availableBy_def)
  from h 1 2 show ?thesis by simp
qed

text \<open>
  Claim C10. In strict mode, with the clock at \<open>now\<close>, a working store and a well-formed
  collection, when the fetched list holds a failed record, the first one decides alone: the
  batch is empty if and only if that record's \<open>available\<close> is after \<open>now\<close>. When it is
  not, the batch is the fetched list filtered to the available records: it holds the first
  failed record, and every other failed record that is still backed off is dropped from it.
\<close>

theorem first_failed_decides:
  assumes "\<not> continueProcessingOnError q"
    and "clock w = (\<lambda>_. now)" and "faults w = (\<lambda>_. None)" and "wf_docs (docs w)"
    and "fetched =
       limit (batchSize q)
         (sort_key receivedDate
            (filter (\<lambda>r. status r = failed \<or>
                         status r \<in> {received, failed, skipped} \<and> availableBy r now)
               (docs w)))"
    and "find (\<lambda>r. status r = failed) fetched = Some firstFailed"
  shows "(fst (getNextBatch q w) = Inr [] \<longleftrightarrow> after firstFailed now) \<and>
     (\<not> after firstFailed now \<longrightarrow>
        fst (getNextBatch q w) = Inr (filter (\<lambda>r. availableBy r now) fetched) \<and>
        firstFailed \<in> set (filter (\<lambda>r. availableBy r now) fetched) \<and>
        (\<forall>r \<in> set fetched. status r = failed \<and> after r now \<longrightarrow>
           r \<notin> set (filter (\<lambda>r. availableBy r now) fetched)))"
proof -
  have run: "getNextBatch q w = prioritizeRecords q fetched w"
    using assms(1,2,3,5) by (simp add: getNextBatch_frozen)
  have ff: "firstFailed \<in> set fetched" "status firstFailed = failed"
    using find_Some_set [OF assms(6)] by simp_all
  have "set fetched \<subseteq> set (docs w)"
    using limit_set [of "batchSize q"] assms(5) by fastforce
  with ff assms(4) have "doc_ok firstFailed"
    by (auto simp: wf_docs_def list_all_iff)
  with ff(2) obtain a where a: "available firstFailed = Some a"
    by (auto simp: doc_ok_def)
  have excl: "\<not> after firstFailed now \<Longrightarrow> availableBy firstFailed now"
    using a by (simp add: after_def availableBy_def)
  have drop: "after r now \<Longrightarrow> \<not> availableBy r now" for r
    by (auto simp: after_def availableBy_def split: option.splits)
  have "filter (\<lambda>r. availableBy r now) fetched \<noteq> []" if "\<not> after firstFailed now"
    using excl [OF that] ff(1) by (auto simp: filter_empty_conv)
  then show ?thesis
    using run assms(1,2,6) ff(1) excl drop
    by (auto simp: prioritizeRecords_frozen)
qed

text \<open>
  For claim C10: two failed records, the second one still backed off, and a received one.
\<close>

theorem first_failed_decides_witness:
  "\<not> continueProcessingOnError example_opts \<and>
   wf_docs (docs (example_world
      [doc 1 failed 1 (Some 0) (Some 1), doc 2 failed 2 (Some 100) (Some 1),
       doc 3 received 3 (Some 0) None])) \<and>
   find (\<lambda>r. status r = failed)
      [doc 1 failed 1 (Some 0) (Some 1), doc 2 failed 2 (Some 100) (Some 1),
       doc 3 received 3 (Some 0) None] = Some (doc 1 failed 1 (Some 0) (Some 1)) \<and>
   \<not> after (doc 1 failed 1 (Some 0) (Some 1)) 50 \<and>
   fst (getNextBatch example_opts (example_world
      [doc 1 failed 1 (Some 0) (Some 1), doc 2 failed 2 (Some 100) (Some 1),
       doc 3 received 3 (Some 0) None])) =
     Inr [doc 1 failed 1 (Some 0) (Some 1), doc 3 received 3 (Some 0) None]"
proof -
  let ?ds = "[doc 1 failed 1 (Some 0) (Some 1), doc 2 failed 2 (Some 100) (Some 1),
       doc 3 received 3 (Some 0) None]"
  let ?w = "example_world ?ds"
  have h: "\<not> continueProcessingOnError example_opts"
    "clock ?w = (\<lambda>_. 50)" "faults ?w = (\<lambda>_. None)" "wf_docs (docs ?w)"
    by (simp_all add: example_defs wf_docs_def doc_ok_def)
  have f: "?ds =
       limit (batchSize example_opts)
         (sort_key receivedDate
            (filter (\<lambda>r. status r = failed \<or>
                         status r \<in> {received, failed, skipped} \<and> availableBy r 50)
               (docs ?w)))"
    by (simp add: example_defs availableBy_def limit_def)
  have g: "find (\<lambda>r. status r = failed) ?ds = Some (doc 1 failed 1 (Some 0) (Some 1))"
    by (simp add: doc_def)
  have n: "\<not> after (doc 1 failed 1 (Some 0) (Some 1)) 50"
    by (simp add: doc_def after_def)
  from first_failed_decides [OF h f g] n
  have "fst (getNextBatch example_opts ?w) =
     Inr [doc 1 failed 1 (Some 0) (Some 1), doc 3 received 3 (Some 0) None]"
    by (simp add: doc_def availableBy_def)
  with h g n show ?thesis by simp
qed

subsection \<open>The backoff calculator\<close>

text \<open>
  Claim C4. The backoff is a function of the retry count, \<open>backoffMs\<close>,
  \<open>backoffCoefficient\<close> and \<open>retryLimit\<close> alone (for a given host): for a count below
  the limit, and for every count when the limit is negative, it is the product of
  \<^verbatim>\<open>Math.pow(count + 1, backoffCoefficient)\<close> and \<open>backoffMs\<close> as the host computes it;
  for a count equal to the limit it is 0.
\<close>

theorem backoff_formula:
  "(retryCount_or_0 r < retryLimit q \<or> retryLimit q < 0 \<and> 0 \<le> retryCount_or_0 r \<longrightarrow>
      getErrorBackoffMs q r =
        js_times (host q)
          (Math_pow (host q) (js_num (host q) (retryCount_or_0 r + 1)) (backoffCoefficient q))
          (backoffMs q)) \<and>
   (retryCount_or_0 r = retryLimit q \<longrightarrow> getErrorBackoffMs q r = js_num (host q) 0) \<and>
   (host q' = host q \<and> retryLimit q' = retryLimit q \<and> backoffMs q' = backoffMs q \<and>
    backoffCoefficient q' = backoffCoefficient q \<and> retryCount r' = retryCount r \<longrightarrow>
      getErrorBackoffMs q' r' = getErrorBackoffMs q r)"
proof (intro conjI impI)
  assume "retryCount_or_0 r < retryLimit q \<or> retryLimit q < 0 \<and> 0 \<le> retryCount_or_0 r"
  then have "retryCount_or_0 r \<noteq> retryLimit q" by auto
  then show "getErrorBackoffMs q r =
        js_times (host q)
          (Math_pow (host q) (js_num (host q) (retryCount_or_0 r + 1)) (backoffCoefficient q))
          (backoffMs q)"
    by (simp add: getErrorBackoffMs_def)
next
  assume "retryCount_or_0 r = retryLimit q"
  then show "getErrorBackoffMs q r = js_num (host q) 0"
    by (simp add: getErrorBackoffMs_def)
next
  assume "host q' = host q \<and> retryLimit q' = retryLimit q \<and> backoffMs q' = backoffMs q \<and>
    backoffCoefficient q' = backoffCoefficient q \<and> retryCount r' = retryCount r"
  then show "getErrorBackoffMs q' r' = getErrorBackoffMs q r"
    unfolding getErrorBackoffMs_def retryCount_or_0_def Let_def by presburger
qed

text \<open>
  For claim C4: counts below the limit, an unlimited queue, a count at the limit, and two
  queues that differ in \<open>batchSize\<close> only.
\<close>

theorem backoff_formula_witness:
  "retryCount_or_0 (doc 1 failed 1 (Some 0) (Some 1)) < retryLimit example_opts \<and>
   getErrorBackoffMs example_opts (doc 1 failed 1 (Some 0) (Some 1)) = 4000 \<and>
   retryLimit (example_opts\<lparr>retryLimit := - 1\<rparr>) < 0 \<and>
   getErrorBackoffMs (example_opts\<lparr>retryLimit := - 1\<rparr>) (doc 1 failed 1 (Some 0) (Some 2)) = 9000 \<and>
   retryCount_or_0 (doc 1 failed 1 (Some 0) (Some 2)) = retryLimit example_opts \<and>
   getErrorBackoffMs example_opts (doc 1 failed 1 (Some 0) (Some 2)) = 0 \<and>
   getErrorBackoffMs (example_opts\<lparr>batchSize := 5\<rparr>) (doc 2 received 7 None (Some 1)) =
     getErrorBackoffMs example_opts (doc 1 failed 1 (Some 0) (Some 1))"
  using backoff_formula [where q = example_opts and r = "doc 1 failed 1 (Some 0) (Some 1)"
      and q' = "example_opts\<lparr>batchSize := 5\<rparr>" and r' = "doc 2 received 7 None (Some 1)"]
    backoff_formula [where q = "example_opts\<lparr>retryLimit := - 1\<rparr>"
      and r = "doc 1 failed 1 (Some 0) (Some 2)"
      and q' = "example_opts\<lparr>retryLimit := - 1\<rparr>" and r' = "doc 1 failed 1 (Some 0) (Some 2)"]
    backoff_formula [where q = example_opts and r = "doc 1 failed 1 (Some 0) (Some 2)"
      and q' = example_opts and r' = "doc 1 failed 1 (Some 0) (Some 2)"]
  by (simp add: example_defs retryCount_or_0_def)

text \<open>
  Claim C5. The claim asks for a delay of 0 when the count after the failure reaches the
  limit, that is when the count before the failure is \<open>retryLimit - 1\<close>. The function
  compares the count before the failure with the limit: with \<^verbatim>\<open>retryLimit: 2\<close> and a record
  that has failed once, the delay is \<open>(1 + 1)\<^sup>2 * 1000 = 4000\<close> and not 0. With the clock at
  50 the record is stored with the count 2, which makes it exhausted, and with
  \<open>available\<close> at 4050: the notification waits for the backoff.
\<close>

theorem last_retry_is_delayed:
  "retryCount_or_0 (doc 1 failed 1 (Some 0) (Some 1)) + 1 = retryLimit example_opts \<and>
   getErrorBackoffMs example_opts (doc 1 failed 1 (Some 0) (Some 1)) = 4000 \<and>
   docs (snd (processRecord example_opts (doc 1 failed 1 (Some 0) (Some 1))
      (example_world [doc 1 failed 1 (Some 0) (Some 1)]))) =
     [(doc 1 failed 1 (Some 4050) (Some 2))
        \<lparr>processedDate := Some 50, failureReason := Some ''boom''\<rparr>] \<and>
   recordHasFailed example_opts
     ((doc 1 failed 1 (Some 4050) (Some 2))
        \<lparr>processedDate := Some 50, failureReason := Some ''boom''\<rparr>)"
  by (simp add: promise_defs queue_defs example_defs)

subsection \<open>The record processor\<close>

text \<open>
  Claim C2, as stated, fails for a count of 0 and for an absent count when the limit is 0:
  the handler is invoked.
\<close>

theorem zero_limit_invokes_handler:
  "0 \<le> retryLimit (example_opts\<lparr>retryLimit := 0\<rparr>) \<and>
   retryCount (doc 1 received 1 (Some 0) (Some 0)) = Some 0 \<and>
   retryLimit (example_opts\<lparr>retryLimit := 0\<rparr>) \<le> 0 \<and>
   calls (snd (processRecord (example_opts\<lparr>retryLimit := 0\<rparr>)
      (doc 1 received 1 (Some 0) (Some 0))
      (example_world [doc 1 received 1 (Some 0) (Some 0)]))) = [OnProcess 1] \<and>
   calls (snd (processRecord (example_opts\<lparr>retryLimit := 0\<rparr>)
      (doc 1 received 1 (Some 0) None)
      (example_world [doc 1 received 1 (Some 0) None]))) = [OnProcess 1]"
  by (simp add: promise_defs queue_defs example_defs)


text \<open>
  Claim C2, amended. When \<open>retryLimit\<close> is not negative and the record's count is present,
  not 0 and at least \<open>retryLimit\<close>, processing the record is the terminal notification of
  that record and nothing else: the only hook called is \<open>onFailure\<close>, the handler
  \<open>onProcess\<close> is not invoked. A record whose count is 0 or absent is handed to the
  handler, whatever \<open>retryLimit\<close> is: the first hook called is \<open>onProcess\<close> on that record.
\<close>

theorem exhausted_goes_to_notifier:
  "(0 \<le> retryLimit q \<and> retryCount r = Some c \<and> c \<noteq> 0 \<and> retryLimit q \<le> c \<longrightarrow>
      processRecord q r w = notifyFailedRecord q (Some r) w \<and>
      calls (snd (processRecord q r w)) = calls w @ [OnFailure (Some (oid r))]) \<and>
   (retryCount r = None \<or> retryCount r = Some 0 \<longrightarrow>
      (\<exists>rest. calls (snd (processRecord q r w)) = calls w @ OnProcess (oid r) # rest))"
proof (intro conjI impI)
  assume a: "0 \<le> retryLimit q \<and> retryCount r = Some c \<and> c \<noteq> 0 \<and> retryLimit q \<le> c"
  then show "processRecord q r w = notifyFailedRecord q (Some r) w"
    by (simp add: processRecord_def recordHasFailed_def)
  from a show "calls (snd (processRecord q r w)) = calls w @ [OnFailure (Some (oid r))]"
    by (simp add: processRecord_def recordHasFailed_def notifyFailedRecord_calls)
next
  assume "retryCount r = None \<or> retryCount r = Some 0"
  then have "\<not> recordHasFailed q r"
    by (auto simp: recordHasFailed_def)
  then show "\<exists>rest. calls (snd (processRecord q r w)) = calls w @ OnProcess (oid r) # rest"
    by (rule processRecord_calls)
qed

text \<open>
  For claim C2: a record that has failed twice in a queue with \<^verbatim>\<open>retryLimit: 2\<close>, and a
  record without a count in a queue with \<^verbatim>\<open>retryLimit: 0\<close>.
\<close>

theorem exhausted_goes_to_notifier_witness:
  "0 \<le> retryLimit example_opts \<and> retryCount (doc 1 failed 1 (Some 0) (Some 2)) = Some 2 \<and>
   (2::int) \<noteq> 0 \<and> retryLimit example_opts \<le> 2 \<and>
   calls (snd (processRecord example_opts (doc 1 failed 1 (Some 0) (Some 2))
      (example_world [doc 1 failed 1 (Some 0) (Some 2)]))) = [OnFailure (Some 1)] \<and>
   retryCount (doc 1 received 1 (Some 0) None) = None \<and>
   hd (calls (snd (processRecord (example_opts\<lparr>retryLimit := 0\<rparr>)
      (doc 1 received 1 (Some 0) None)
      (example_world [doc 1 received 1 (Some 0) None])))) = OnProcess 1"
proof -
  have h: "0 \<le> retryLimit example_opts \<and>
    retryCount (doc 1 failed 1 (Some 0) (Some 2)) = Some 2 \<and>
    (2::int) \<noteq> 0 \<and> retryLimit example_opts \<le> 2"
    by (simp add: example_defs)
  from exhausted_goes_to_notifier
    [where q = example_opts and r = "doc 1 failed 1 (Some 0) (Some 2)" and c = 2
       and w = "example_world [doc 1 failed 1 (Some 0) (Some 2)]",
     THEN conjunct1, rule_format, OF h, THEN conjunct2]
  have 1: "calls (snd (processRecord example_opts (doc 1 failed 1 (Some 0) (Some 2))
      (example_world [doc 1 failed 1 (Some 0) (Some 2)]))) = [OnFailure (Some 1)]"
    by (simp add: example_world_def doc_def)
  have g: "retryCount (doc 1 received 1 (Some 0) None) = None \<or>
    retryCount (doc 1 received 1 (Some 0) None) = Some 0"
    by (simp add: doc_def)
  from exhausted_goes_to_notifier
    [where q = "example_opts\<lparr>retryLimit := 0\<rparr>" and r = "doc 1 received 1 (Some 0) None"
       and w = "example_world [doc 1 received 1 (Some 0) None]",
     THEN conjunct2, rule_format, OF g]
  have 2: "hd (calls (snd (processRecord (example_opts\<lparr>retryLimit := 0\<rparr>)
      (doc 1 received 1 (Some 0) None)
      (example_world [doc 1 received 1 (Some 0) None])))) = OnProcess 1"
    by (auto simp: example_world_def doc_def)
  from h g 1 2 show ?thesis by (simp add: doc_def)
qed

text \<open>
  Claim C3, as stated, fails for a success: it removes the count of a record that has
  failed before.
\<close>

theorem success_clears_retryCount:
  "map retryCount (docs (example_world [doc 1 failed 1 (Some 0) (Some 1)])) = [Some 1] \<and>
   onProcess (example_opts\<lparr>onProcess := \<lambda>_. Inr None\<rparr>) (doc 1 failed 1 (Some 0) (Some 1)) =
     Inr None \<and>
   map retryCount
     (docs (snd (processRecord (example_opts\<lparr>onProcess := \<lambda>_. Inr None\<rparr>)
        (doc 1 failed 1 (Some 0) (Some 1))
        (example_world [doc 1 failed 1 (Some 0) (Some 1)])))) = [None]"
  by (simp add: promise_defs queue_defs example_defs)

text \<open>
  Claim C3, amended. When the handler fails with an ordinary error on a record that is not
  exhausted, the clock stands at \<open>now\<close> and the store works, the update sets \<open>status\<close> to
  \<open>failed\<close>, \<open>processedDate\<close> to \<open>now\<close>, \<open>failureReason\<close> to the error detail and
  \<open>available\<close> to the date of \<open>now\<close> plus the backoff of the record's count before the
  failure, and increments the stored count by 1 (an absent count becomes 1). No other
  outcome increments a count: a skip, an immediate failure and a notification leave every
  count as it is, whatever the store does, and a success removes the count of the record.
\<close>

theorem retryCount_transitions:
  "(\<not> recordHasFailed q r \<and> onProcess q r = Inl e \<and> \<not> isSkip e \<and> \<not> isFail e \<and>
    clock w = (\<lambda>_. now) \<and> faults w = (\<lambda>_. None) \<longrightarrow>
      docs (snd (processRecord q r w)) =
        updateOne (oid r)
          (\<lambda>d. d\<lparr>status := failed, processedDate := Some now,
                 failureReason := Some (stack_of e),
                 available :=
                   Some (new_Date (host q)
                           (js_plus (host q) (js_num (host q) now) (getErrorBackoffMs q r))),
                 retryCount := Some (retryCount_or_0 d + 1)\<rparr>)
          (docs w)) \<and>
   (\<not> recordHasFailed q r \<and> onProcess q r = Inl e \<and> (isSkip e \<or> isFail e) \<longrightarrow>
      map retryCount (docs (snd (processRecord q r w))) = map retryCount (docs w)) \<and>
   (recordHasFailed q r \<longrightarrow>
      map retryCount (docs (snd (processRecord q r w))) = map retryCount (docs w)) \<and>
   (\<not> recordHasFailed q r \<and> onProcess q r = Inr ai \<and> faults w = (\<lambda>_. None) \<longrightarrow>
      map retryCount (docs (snd (processRecord q r w))) =
        map retryCount (updateOne (oid r) (\<lambda>d. d\<lparr>retryCount := None\<rparr>) (docs w)))"
proof (intro conjI impI)
  assume a: "\<not> recordHasFailed q r \<and> onProcess q r = Inl e \<and> \<not> isSkip e \<and> \<not> isFail e \<and>
    clock w = (\<lambda>_. now) \<and> faults w = (\<lambda>_. None)"
  let ?w = "w\<lparr>calls := calls w @ [OnProcess (oid r)]\<rparr>"
  have "clock ?w = (\<lambda>_. now)" "faults ?w = (\<lambda>_. None)"
    using a by simp_all
  from processFailure_run [OF this, of q r e] a
  show "docs (snd (processRecord q r w)) =
        updateOne (oid r)
          (\<lambda>d. d\<lparr>status := failed, processedDate := Some now,
                 failureReason := Some (stack_of e),
                 available :=
                   Some (new_Date (host q)
                           (js_plus (host q) (js_num (host q) now) (getErrorBackoffMs q r))),
                 retryCount := Some (retryCount_or_0 d + 1)\<rparr>)
          (docs w)"
    by (simp add: processRecord_rejected stop_snd)
next
  assume "\<not> recordHasFailed q r \<and> onProcess q r = Inl e \<and> (isSkip e \<or> isFail e)"
  then show "map retryCount (docs (snd (processRecord q r w))) = map retryCount (docs w)"
    by (auto simp: processRecord_rejected processSkip_retryCount failImmediately_retryCount)
next
  assume "recordHasFailed q r"
  then show "map retryCount (docs (snd (processRecord q r w))) = map retryCount (docs w)"
    by (simp add: processRecord_def notifyFailedRecord_retryCount)
next
  assume a: "\<not> recordHasFailed q r \<and> onProcess q r = Inr ai \<and> faults w = (\<lambda>_. None)"
  have id: "oid (attachInfo r ai) = oid r"
    by (simp add: attachInfo_def split: option.splits)
  have run: "docs (snd (processRecord q r w)) =
      updateOne (oid r)
        (\<lambda>d. d\<lparr>status := processed, processedDate := Some (clock w 0),
               additionalInfo :=
                 (case additionalInfo (attachInfo r ai) of
                    None \<Rightarrow> additionalInfo d | Some x \<Rightarrow> Some x),
               failureReason := None, retryCount := None, available := None\<rparr>)
        (docs w)"
    using a
    by (simp add: processRecord_def catch_p_def then_p_def resolve_def invoke_def
        processSuccess_def getCollection_reliable update_reliable newDate_def id)
  show "map retryCount (docs (snd (processRecord q r w))) =
        map retryCount (updateOne (oid r) (\<lambda>d. d\<lparr>retryCount := None\<rparr>) (docs w))"
    unfolding run by (rule updateOne_map_cong) simp
qed

text \<open>
  For claim C3: an ordinary failure, a skip, an immediate failure, a notification and a
  success on a record that has failed once (twice for the notification).
\<close>

theorem retryCount_transitions_witness:
  "\<not> recordHasFailed example_opts (doc 1 failed 1 (Some 0) (Some 1)) \<and>
   onProcess example_opts (doc 1 failed 1 (Some 0) (Some 1)) = Inl (Err ''boom'') \<and>
   docs (snd (processRecord example_opts (doc 1 failed 1 (Some 0) (Some 1))
      (example_world [doc 1 failed 1 (Some 0) (Some 1)]))) =
     [(doc 1 failed 1 (Some 4050) (Some 2))
        \<lparr>processedDate := Some 50, failureReason := Some ''boom''\<rparr>] \<and>
   map retryCount
     (docs (snd (processRecord (example_opts\<lparr>onProcess := \<lambda>_. Inl (SkipSignal None)\<rparr>)
        (doc 1 failed 1 (Some 0) (Some 1))
        (example_world [doc 1 failed 1 (Some 0) (Some 1)])))) = [Some 1] \<and>
   map retryCount
     (docs (snd (processRecord (example_opts\<lparr>onProcess := \<lambda>_. Inl (FailSignal ''bad data'')\<rparr>)
        (doc 1 failed 1 (Some 0) (Some 1))
        (example_world [doc 1 failed 1 (Some 0) (Some 1)])))) = [Some 1] \<and>
   recordHasFailed example_opts (doc 1 failed 1 (Some 0) (Some 2)) \<and>
   map retryCount
     (docs (snd (processRecord example_opts (doc 1 failed 1 (Some 0) (Some 2))
        (example_world [doc 1 failed 1 (Some 0) (Some 2)])))) = [Some 2] \<and>
   map retryCount
     (docs (snd (processRecord (example_opts\<lparr>onProcess := \<lambda>_. Inr None\<rparr>)
        (doc 1 failed 1 (Some 0) (Some 1))
        (example_world [doc 1 failed 1 (Some 0) (Some 1)])))) = [None]"
proof -
  let ?r = "doc 1 failed 1 (Some 0) (Some 1)"
  let ?w = "example_world [?r]"
  let ?skip = "example_opts\<lparr>onProcess := \<lambda>_. Inl (SkipSignal None)\<rparr>"
  let ?fail = "example_opts\<lparr>onProcess := \<lambda>_. Inl (FailSignal ''bad data'')\<rparr>"
  let ?ok = "example_opts\<lparr>onProcess := \<lambda>_. Inr None\<rparr>"
  have a: "\<not> recordHasFailed example_opts ?r \<and> onProcess example_opts ?r = Inl (Err ''boom'') \<and>
    \<not> isSkip (Err ''boom'') \<and> \<not> isFail (Err ''boom'') \<and>
    clock ?w = (\<lambda>_. 50) \<and> faults ?w = (\<lambda>_. None)"
    by (simp add: example_defs recordHasFailed_def)
  have b: "\<not> recordHasFailed ?skip ?r \<and> onProcess ?skip ?r = Inl (SkipSignal None) \<and>
    (isSkip (SkipSignal None) \<or> isFail (SkipSignal None))"
    by (simp add: example_defs recordHasFailed_def)
  have c: "\<not> recordHasFailed ?fail ?r \<and> onProcess ?fail ?r = Inl (FailSignal ''bad data'') \<and>
    (isSkip (FailSignal ''bad data'') \<or> isFail (FailSignal ''bad data''))"
    by (simp add: example_defs recordHasFailed_def)
  have d: "recordHasFailed example_opts (doc 1 failed 1 (Some 0) (Some 2))"
    by (simp add: example_defs recordHasFailed_def)
  have e: "\<not> recordHasFailed ?ok ?r \<and> onProcess ?ok ?r = Inr None \<and> faults ?w = (\<lambda>_. None)"
    by (simp add: example_defs recordHasFailed_def)
  note t = retryCount_transitions
  from t [where q = example_opts and r = ?r and w = ?w and now = 50 and e = "Err ''boom''",
      THEN conjunct1, rule_format, OF a]
  have 1: "docs (snd (processRecord example_opts ?r ?w)) =
     [(doc 1 failed 1 (Some 4050) (Some 2))
        \<lparr>processedDate := Some 50, failureReason := Some ''boom''\<rparr>]"
    by (simp add: example_defs getErrorBackoffMs_def retryCount_or_0_def)
  from t [where q = ?skip and r = ?r and w = ?w and e = "SkipSignal None",
      THEN conjunct2, THEN conjunct1, rule_format, OF b]
  have 2: "map retryCount (docs (snd (processRecord ?skip ?r ?w))) = [Some 1]"
    by (simp add: example_defs)
  from t [where q = ?fail and r = ?r and w = ?w and e = "FailSignal ''bad data''",
      THEN conjunct2, THEN conjunct1, rule_format, OF c]
  have 3: "map retryCount (docs (snd (processRecord ?fail ?r ?w))) = [Some 1]"
    by (simp add: example_defs)
  from t [where q = example_opts and r = "doc 1 failed 1 (Some 0) (Some 2)"
      and w = "example_world [doc 1 failed 1 (Some 0) (Some 2)]",
      THEN conjunct2, THEN conjunct2, THEN conjunct1, rule_format, OF d]
  have 4: "map retryCount
     (docs (snd (processRecord example_opts (doc 1 failed 1 (Some 0) (Some 2))
        (example_world [doc 1 failed 1 (Some 0) (Some 2)])))) = [Some 2]"
    by (simp add: example_defs)
  from t [where q = ?ok and r = ?r and w = ?w and ai = None,
      THEN conjunct2, THEN conjunct2, THEN conjunct2, rule_format, OF e]
  have 5: "map retryCount (docs (snd (processRecord ?ok ?r ?w))) = [None]"
    by (simp add: example_defs)
  from a d 1 2 3 4 5 show ?thesis by simp
qed

text \<open>
  Claim C8. When the handler signals skip with a delay (0 when none was given) for a record
  that is not exhausted, the clock stands at \<open>now\<close> and the store works, the update sets
  \<open>status\<close> to \<open>skipped\<close>, \<open>processedDate\<close> to \<open>now\<close> and \<open>available\<close> to \<open>now\<close> plus the
  delay on the document of the record, and nothing else: every other field of that document
  and every other document stay as they are, in particular every \<open>retryCount\<close>.
\<close>

theorem skip_mutation:
  assumes "\<not> recordHasFailed q r" and "onProcess q r = Inl (SkipSignal delay)"
    and "clock w = (\<lambda>_. now)" and "faults w = (\<lambda>_. None)"
  shows "fst (processRecord q r w) = Inr () \<and>
     docs (snd (processRecord q r w)) =
       updateOne (oid r)
         (\<lambda>d. d\<lparr>status := skipped, processedDate := Some now,
                available := Some (now + (case delay of None \<Rightarrow> 0 | Some ms \<Rightarrow> ms))\<rparr>)
         (docs w) \<and>
     map retryCount (docs (snd (processRecord q r w))) = map retryCount (docs w)"
proof -
  have "getSkipBackoff (SkipSignal delay) = (case delay of None \<Rightarrow> 0 | Some ms \<Rightarrow> ms)"
    by (cases delay) simp_all
  then show ?thesis
    using assms by (simp add: processRecord_skip processSkip_run updateOne_keeps)
qed

text \<open>
  For claim C8: a skip of 500 ms on a record that has failed once.
\<close>

theorem skip_mutation_witness:
  "\<not> recordHasFailed (example_opts\<lparr>onProcess := \<lambda>_. Inl (SkipSignal (Some 500))\<rparr>)
       (doc 1 failed 1 (Some 0) (Some 1)) \<and>
   docs (snd (processRecord (example_opts\<lparr>onProcess := \<lambda>_. Inl (SkipSignal (Some 500))\<rparr>)
       (doc 1 failed 1 (Some 0) (Some 1))
       (example_world [doc 1 failed 1 (Some 0) (Some 1), doc 2 received 2 (Some 0) None]))) =
     [(doc 1 skipped 1 (Some 550) (Some 1))\<lparr>processedDate := Some 50\<rparr>,
      doc 2 received 2 (Some 0) None]"
  using skip_mutation [where q = "example_opts\<lparr>onProcess := \<lambda>_. Inl (SkipSignal (Some 500))\<rparr>"
      and r = "doc 1 failed 1 (Some 0) (Some 1)" and delay = "Some 500" and now = 50
      and w = "example_world [doc 1 failed 1 (Some 0) (Some 1), doc 2 received 2 (Some 0) None]"]
  by (simp add: example_defs recordHasFailed_def)

subsection \<open>The available field\<close>

text \<open>
  Claim C6, as stated, fails for the notification: a record that becomes \<open>notified\<close> or
  \<open>notifyFailure\<close> keeps the \<open>available\<close> field it had.
\<close>

theorem notified_keeps_available:
  "map status
     (docs (snd (processNextBatch example_opts
        (example_world [doc 1 failed 1 (Some 0) (Some 2)])))) = [notified] \<and>
   map available
     (docs (snd (processNextBatch example_opts
        (example_world [doc 1 failed 1 (Some 0) (Some 2)])))) = [Some 0] \<and>
   map status
     (docs (snd (processNextBatch (example_opts\<lparr>onFailure := \<lambda>_. Inl (Err ''smtp'')\<rparr>)
        (example_world [doc 1 failed 1 (Some 0) (Some 2)])))) = [notifyFailure] \<and>
   map available
     (docs (snd (processNextBatch (example_opts\<lparr>onFailure := \<lambda>_. Inl (Err ''smtp'')\<rparr>)
        (example_world [doc 1 failed 1 (Some 0) (Some 2)])))) = [Some 0]"
  by (simp add: promise_defs queue_defs example_defs)

text \<open>
  Claim C6, amended. Every operation of the module (\<open>enqueue\<close>, \<open>processNextBatch\<close>,
  \<open>cleanup\<close>, \<open>resetRecords\<close>) keeps the collection well formed, whatever the clock, the
  store, the handler and the hooks do: each record whose status is received, failed or
  skipped carries \<open>available\<close>, and each processed record carries none. The notification
  leaves the \<open>available\<close> field of every record as it was.
\<close>

theorem available_invariant:
  assumes "wf_docs (docs w)"
  shows "wf_docs (docs (snd (enqueue payload w))) \<and>
     wf_docs (docs (snd (processNextBatch q w))) \<and>
     wf_docs (docs (snd (cleanup q w))) \<and>
     wf_docs (docs (snd (resetRecords ids w))) \<and>
     map available (docs (snd (notifyFailedRecord q ro w))) = map available (docs w)"
  using assms
  by (simp add: enqueue_wf processNextBatch_wf cleanup_wf resetRecords_wf
      notifyFailedRecord_available)

text \<open>
  For claim C6: a tick over an exhausted record and a received one.
\<close>

theorem available_invariant_witness:
  "wf_docs (docs (example_world
      [doc 1 failed 1 (Some 0) (Some 2), doc 2 received 2 (Some 0) None])) \<and>
   wf_docs (docs (snd (processNextBatch example_opts (example_world
      [doc 1 failed 1 (Some 0) (Some 2), doc 2 received 2 (Some 0) None])))) \<and>
   map status (docs (snd (processNextBatch example_opts (example_world
      [doc 1 failed 1 (Some 0) (Some 2), doc 2 received 2 (Some 0) None])))) =
     [notified, failed]"
proof -
  have h: "wf_docs (docs (example_world
      [doc 1 failed 1 (Some 0) (Some 2), doc 2 received 2 (Some 0) None]))"
    by (simp add: example_defs wf_docs_def doc_ok_def)
  have "map status (docs (snd (processNextBatch example_opts (example_world
      [doc 1 failed 1 (Some 0) (Some 2), doc 2 received 2 (Some 0) None])))) =
     [notified, failed]"
    by (simp add: promise_defs queue_defs example_defs)
  with h available_invariant [OF h, of _ example_opts] show ?thesis
    by simp
qed

subsection \<open>The batch tick\<close>

text \<open>
  Claim C7, as stated, fails for a store failure while a success is persisted: the
  \<^verbatim>\<open>catch\<close> of \<^verbatim>\<open>processRecord\<close> covers \<^verbatim>\<open>processSuccess\<close>, receives the store's error and
  handles it as an ordinary failure of the record. Here the handler succeeds and the fourth
  store operation, the update of \<^verbatim>\<open>processSuccess\<close>, is rejected: in strict mode the tick
  is resolved, the record is stored as failed with the store's error as its reason and the
  second record is not processed; in lenient mode the tick is resolved as well and goes on
  to the second record.
\<close>

theorem store_failure_on_success_is_swallowed:
  "processSuccess (doc 1 received 1 (Some 0) None)
     ((example_world [doc 1 received 1 (Some 0) None, doc 2 received 2 (Some 0) None])
        \<lparr>faults := \<lambda>i. if i = Suc 0 then Some ''down'' else None,
         calls := [OnProcess 1]\<rparr>) =
     (Inl (Err ''down''),
      (example_world [doc 1 received 1 (Some 0) None, doc 2 received 2 (Some 0) None])
        \<lparr>calls := [OnProcess 1]\<rparr>) \<and>
   processNextBatch (example_opts\<lparr>onProcess := \<lambda>_. Inr None\<rparr>)
     ((example_world [doc 1 received 1 (Some 0) None, doc 2 received 2 (Some 0) None])
        \<lparr>faults := \<lambda>i. if i = Suc (Suc (Suc 0)) then Some ''down'' else None\<rparr>) =
     (Inr (),
      \<lparr>docs = [(doc 1 failed 1 (Some 1050) (Some 1))
                 \<lparr>processedDate := Some 50, failureReason := Some ''down''\<rparr>,
               doc 2 received 2 (Some 0) None],
       clock = (\<lambda>_. 50), faults = (\<lambda>_. None), calls = [OnProcess 1]\<rparr>) \<and>
   fst (processNextBatch
          (example_opts\<lparr>onProcess := \<lambda>_. Inr None, continueProcessingOnError := True\<rparr>)
          ((example_world [doc 1 received 1 (Some 0) None, doc 2 received 2 (Some 0) None])
             \<lparr>faults := \<lambda>i. if i = Suc (Suc (Suc 0)) then Some ''down'' else None\<rparr>)) =
     Inr () \<and>
   map status
     (docs (snd (processNextBatch
          (example_opts\<lparr>onProcess := \<lambda>_. Inr None, continueProcessingOnError := True\<rparr>)
          ((example_world [doc 1 received 1 (Some 0) None, doc 2 received 2 (Some 0) None])
             \<lparr>faults := \<lambda>i. if i = Suc (Suc (Suc 0)) then Some ''down'' else None\<rparr>)))) =
     [failed, processed]"
  by (simp add: promise_defs queue_defs example_defs)

text \<open>
  Claim C7, amended. \<open>processNextBatch\<close> is never rejected with the sentinel. When the store
  works, the pre-hook is not rejected and the failure hook is not rejected with
  \<^verbatim>\<open>undefined\<close> or \<^verbatim>\<open>null\<close>, it is resolved, whatever the handler and the failure hook
  do. In strict mode, when the handler fails with an ordinary error on a record of the
  batch and the failure is persisted, the tick is resolved in the world the update left:
  the records after it are not processed, the last hook called is the handler on that
  record. An error other than the sentinel is the rejection of the tick when it is the
  rejection of the pre-hook, of the selection, or of the processing of a record. The
  processing of a record is rejected with the error of the step that follows the handler's
  rejection (\<open>processSkip\<close>, \<open>failImmediately\<close> or \<open>processFailure\<close>) and with the error
  of the notification of an exhausted record. The rejection of \<open>processSuccess\<close> is not
  the rejection of the processing: it is handled as an ordinary failure of the record, by
  \<open>processFailure\<close> and the sentinel in strict mode.
\<close>

theorem tick_error_policy:
  "fst (processNextBatch q w) \<noteq> Inl STOP_PROCESSING \<and>
   (faults w = (\<lambda>_. None) \<and> fst (preHook q w) = Inr () \<and>
    (\<forall>ro. onFailure q ro \<noteq> Inl Nullish) \<longrightarrow>
      fst (processNextBatch q w) = Inr ()) \<and>
   (\<not> continueProcessingOnError q \<and> preHook q w = (Inr (), w0) \<and>
    getNextBatch q w0 = (Inr (pre @ r # post), w1) \<and>
    mapSeries (processRecord q) pre w1 = (Inr us, w2) \<and>
    \<not> recordHasFailed q r \<and> onProcess q r = Inl e \<and> \<not> isSkip e \<and> \<not> isFail e \<and>
    processFailure q r e (w2\<lparr>calls := calls w2 @ [OnProcess (oid r)]\<rparr>) = (Inr (), w3) \<longrightarrow>
      processNextBatch q w = (Inr (), w3) \<and> calls w3 = calls w2 @ [OnProcess (oid r)]) \<and>
   (preHook q w = (Inl e', w0) \<and> e' \<noteq> STOP_PROCESSING \<longrightarrow>
      processNextBatch q w = (Inl e', w0)) \<and>
   (preHook q w = (Inr (), w0) \<and> getNextBatch q w0 = (Inl e', w1) \<and>
    e' \<noteq> STOP_PROCESSING \<longrightarrow>
      processNextBatch q w = (Inl e', w1)) \<and>
   (preHook q w = (Inr (), w0) \<and> getNextBatch q w0 = (Inr (pre @ r # post), w1) \<and>
    mapSeries (processRecord q) pre w1 = (Inr us, w2) \<and>
    processRecord q r w2 = (Inl e', w3) \<and> e' \<noteq> STOP_PROCESSING \<longrightarrow>
      processNextBatch q w = (Inl e', w3)) \<and>
   (\<not> recordHasFailed q r \<and> onProcess q r = Inl e \<and>
    (if isSkip e then processSkip r e
     else if isFail e then failImmediately q r e
     else processFailure q r e) (v\<lparr>calls := calls v @ [OnProcess (oid r)]\<rparr>) = (Inl e', v1) \<longrightarrow>
      processRecord q r v = (Inl e', v1)) \<and>
   (recordHasFailed q r \<and> notifyFailedRecord q (Some r) v = (Inl e', v1) \<longrightarrow>
      processRecord q r v = (Inl e', v1)) \<and>
   (\<not> recordHasFailed q r \<and> onProcess q r = Inr ai \<and>
    processSuccess (attachInfo r ai) (v\<lparr>calls := calls v @ [OnProcess (oid r)]\<rparr>) =
      (Inl e', v1) \<longrightarrow>
      processRecord q r v =
        then_p (processFailure q r e')
          (\<lambda>_. if \<not> continueProcessingOnError q then reject STOP_PROCESSING else resolve ())
          v1)"
proof (intro conjI impI)
  show "fst (processNextBatch q w) \<noteq> Inl STOP_PROCESSING"
    by (auto simp: processNextBatch_run split: prod.splits sum.splits)
next
  assume "faults w = (\<lambda>_. None) \<and> fst (preHook q w) = Inr () \<and>
    (\<forall>ro. onFailure q ro \<noteq> Inl Nullish)"
  then show "fst (processNextBatch q w) = Inr ()"
    by (simp add: processNextBatch_reliable)
next
  assume a: "\<not> continueProcessingOnError q \<and> preHook q w = (Inr (), w0) \<and>
    getNextBatch q w0 = (Inr (pre @ r # post), w1) \<and>
    mapSeries (processRecord q) pre w1 = (Inr us, w2) \<and>
    \<not> recordHasFailed q r \<and> onProcess q r = Inl e \<and> \<not> isSkip e \<and> \<not> isFail e \<and>
    processFailure q r e (w2\<lparr>calls := calls w2 @ [OnProcess (oid r)]\<rparr>) = (Inr (), w3)"
  then have "processRecord q r w2 = (Inl STOP_PROCESSING, w3)"
    by (simp add: processRecord_rejected then_p_def reject_def)
  with a have "mapSeries (processRecord q) (pre @ r # post) w1 = (Inl STOP_PROCESSING, w3)"
    by (simp add: mapSeries_stops)
  with a show "processNextBatch q w = (Inr (), w3)"
    by (simp add: processNextBatch_run)
  from a processFailure_calls [of q r e "w2\<lparr>calls := calls w2 @ [OnProcess (oid r)]\<rparr>"]
  show "calls w3 = calls w2 @ [OnProcess (oid r)]"
    by simp
next
  assume "preHook q w = (Inl e', w0) \<and> e' \<noteq> STOP_PROCESSING"
  then show "processNextBatch q w = (Inl e', w0)"
    by (simp add: processNextBatch_run)
next
  assume "preHook q w = (Inr (), w0) \<and> getNextBatch q w0 = (Inl e', w1) \<and>
    e' \<noteq> STOP_PROCESSING"
  then show "processNextBatch q w = (Inl e', w1)"
    by (simp add: processNextBatch_run)
next
  assume a: "preHook q w = (Inr (), w0) \<and> getNextBatch q w0 = (Inr (pre @ r # post), w1) \<and>
    mapSeries (processRecord q) pre w1 = (Inr us, w2) \<and>
    processRecord q r w2 = (Inl e', w3) \<and> e' \<noteq> STOP_PROCESSING"
  then have "mapSeries (processRecord q) (pre @ r # post) w1 = (Inl e', w3)"
    by (simp add: mapSeries_stops)
  with a show "processNextBatch q w = (Inl e', w3)"
    by (simp add: processNextBatch_run)
next
  assume "\<not> recordHasFailed q r \<and> onProcess q r = Inl e \<and>
    (if isSkip e then processSkip r e
     else if isFail e then failImmediately q r e
     else processFailure q r e) (v\<lparr>calls := calls v @ [OnProcess (oid r)]\<rparr>) = (Inl e', v1)"
  then show "processRecord q r v = (Inl e', v1)"
    by (auto simp: processRecord_rejected then_p_def split: if_splits)
next
  assume "recordHasFailed q r \<and> notifyFailedRecord q (Some r) v = (Inl e', v1)"
  then show "processRecord q r v = (Inl e', v1)"
    by (simp add: processRecord_def)
next
  assume "\<not> recordHasFailed q r \<and> onProcess q r = Inr ai \<and>
    processSuccess (attachInfo r ai) (v\<lparr>calls := calls v @ [OnProcess (oid r)]\<rparr>) =
      (Inl e', v1)"
  then show "processRecord q r v =
        then_p (processFailure q r e')
          (\<lambda>_. if \<not> continueProcessingOnError q then reject STOP_PROCESSING else resolve ())
          v1"
    by (simp add: processRecord_success_rejected)
qed

text \<open>
  For claim C7: a strict tick that stops at the first record; a tick whose handler fails
  immediately and whose failure hook is rejected with an error; a rejected pre-hook; a store
  that fails at the selection; a store that fails while a skip is persisted, in the tick
  and in the processing of the record; a store that fails at the notification of an
  exhausted record; a store that fails while a success is persisted.
\<close>

theorem tick_error_policy_witness:
  "processNextBatch example_opts
     (example_world [doc 1 received 1 (Some 0) None, doc 2 received 2 (Some 0) None]) =
     (Inr (),
      \<lparr>docs = [(doc 1 failed 1 (Some 1050) (Some 1))
                 \<lparr>processedDate := Some 50, failureReason := Some ''boom''\<rparr>,
               doc 2 received 2 (Some 0) None],
       clock = (\<lambda>_. 50), faults = (\<lambda>_. None), calls = [OnProcess 1]\<rparr>) \<and>
   fst (processNextBatch (example_opts\<lparr>onProcess := \<lambda>_. Inl (FailSignal ''bad data''),
          onFailure := \<lambda>_. Inl (Err ''smtp'')\<rparr>)
     (example_world [doc 1 received 1 (Some 0) None, doc 2 received 2 (Some 0) None])) =
     Inr () \<and>
   processNextBatch (example_opts\<lparr>onPreHook := Some (Inl (Err ''quota''))\<rparr>)
     (example_world [doc 1 received 1 (Some 0) None]) =
     (Inl (Err ''quota''),
      (example_world [doc 1 received 1 (Some 0) None])\<lparr>calls := [OnPreHook]\<rparr>) \<and>
   processNextBatch example_opts
     ((example_world [doc 1 received 1 (Some 0) None])
        \<lparr>faults := \<lambda>i. if i = 0 then Some ''down'' else None\<rparr>) =
     (Inl (Err ''down''), example_world [doc 1 received 1 (Some 0) None]) \<and>
   processNextBatch (example_opts\<lparr>onProcess := \<lambda>_. Inl (SkipSignal None)\<rparr>)
     ((example_world [doc 1 received 1 (Some 0) None, doc 2 received 2 (Some 0) None])
        \<lparr>faults := \<lambda>i. if i = Suc (Suc 0) then Some ''down'' else None\<rparr>) =
     (Inl (Err ''down''),
      (example_world [doc 1 received 1 (Some 0) None, doc 2 received 2 (Some 0) None])
        \<lparr>calls := [OnProcess 1]\<rparr>) \<and>
   processRecord (example_opts\<lparr>onProcess := \<lambda>_. Inl (SkipSignal None)\<rparr>)
     (doc 1 received 1 (Some 0) None)
     ((example_world [doc 1 received 1 (Some 0) None])
        \<lparr>faults := \<lambda>i. if i = 0 then Some ''down'' else None\<rparr>) =
     (Inl (Err ''down''),
      (example_world [doc 1 received 1 (Some 0) None])\<lparr>calls := [OnProcess 1]\<rparr>) \<and>
   processRecord example_opts (doc 1 failed 1 (Some 0) (Some 2))
     ((example_world [doc 1 failed 1 (Some 0) (Some 2)])
        \<lparr>faults := \<lambda>i. if i = 0 then Some ''down'' else None\<rparr>) =
     (Inl (Err ''down''),
      (example_world [doc 1 failed 1 (Some 0) (Some 2)])
        \<lparr>calls := [OnFailure (Some 1)]\<rparr>) \<and>
   processRecord (example_opts\<lparr>onProcess := \<lambda>_. Inr None\<rparr>)
     (doc 1 received 1 (Some 0) None)
     ((example_world [doc 1 received 1 (Some 0) None])
        \<lparr>faults := \<lambda>i. if i = Suc 0 then Some ''down'' else None\<rparr>) =
     (Inl STOP_PROCESSING,
      \<lparr>docs = [(doc 1 failed 1 (Some 1050) (Some 1))
                 \<lparr>processedDate := Some 50, failureReason := Some ''down''\<rparr>],
       clock = (\<lambda>_. 50), faults = (\<lambda>_. None), calls = [OnProcess 1]\<rparr>)"
proof -
  let ?d1 = "doc 1 received 1 (Some 0) None"
  let ?d2 = "doc 2 received 2 (Some 0) None"
  let ?x = "doc 1 failed 1 (Some 0) (Some 2)"
  let ?w = "example_world [?d1, ?d2]"
  let ?w3 = "\<lparr>docs = [(doc 1 failed 1 (Some 1050) (Some 1))
                 \<lparr>processedDate := Some 50, failureReason := Some ''boom''\<rparr>, ?d2],
       clock = (\<lambda>_. 50), faults = (\<lambda>_. None), calls = [OnProcess 1]\<rparr>"
  let ?fail = "example_opts\<lparr>onProcess := \<lambda>_. Inl (FailSignal ''bad data''),
          onFailure := \<lambda>_. Inl (Err ''smtp'')\<rparr>"
  let ?pre = "example_opts\<lparr>onPreHook := Some (Inl (Err ''quota''))\<rparr>"
  let ?v = "example_world [?d1]"
  let ?down = "?v\<lparr>faults := \<lambda>i. if i = 0 then Some ''down'' else None\<rparr>"
  let ?down1 = "?v\<lparr>faults := \<lambda>i. if i = Suc 0 then Some ''down'' else None\<rparr>"
  let ?xdown = "(example_world [?x])\<lparr>faults := \<lambda>i. if i = 0 then Some ''down'' else None\<rparr>"
  let ?skip = "example_opts\<lparr>onProcess := \<lambda>_. Inl (SkipSignal None)\<rparr>"
  let ?ok = "example_opts\<lparr>onProcess := \<lambda>_. Inr None\<rparr>"
  let ?late = "?w\<lparr>faults := \<lambda>i. if i = Suc (Suc 0) then Some ''down'' else None\<rparr>"
  let ?late1 = "?w\<lparr>faults := \<lambda>i. if i = 0 then Some ''down'' else None\<rparr>"
  note t = tick_error_policy
  have stop: "\<not> continueProcessingOnError example_opts \<and>
    preHook example_opts ?w = (Inr (), ?w) \<and>
    getNextBatch example_opts ?w = (Inr ([] @ ?d1 # [?d2]), ?w) \<and>
    mapSeries (processRecord example_opts) [] ?w = (Inr [], ?w) \<and>
    \<not> recordHasFailed example_opts ?d1 \<and> onProcess example_opts ?d1 = Inl (Err ''boom'') \<and>
    \<not> isSkip (Err ''boom'') \<and> \<not> isFail (Err ''boom'') \<and>
    processFailure example_opts ?d1 (Err ''boom'')
      (?w\<lparr>calls := calls ?w @ [OnProcess (oid ?d1)]\<rparr>) = (Inr (), ?w3)"
    by (simp add: promise_defs queue_defs example_defs)
  have 1: "processNextBatch example_opts ?w = (Inr (), ?w3)"
    using t [where q = example_opts and w = ?w and ?w0.0 = ?w and ?w1.0 = ?w and ?w2.0 = ?w
        and ?w3.0 = ?w3 and pre = "[]" and r = ?d1 and post = "[?d2]" and us = "[]"
        and e = "Err ''boom''",
        THEN conjunct2, THEN conjunct2, THEN conjunct1, rule_format, OF stop]
    by simp
  have ok: "faults ?w = (\<lambda>_. None) \<and> fst (preHook ?fail ?w) = Inr () \<and>
    (\<forall>ro. onFailure ?fail ro \<noteq> Inl Nullish)"
    by (simp add: promise_defs queue_defs example_defs)
  have 2: "fst (processNextBatch ?fail ?w) = Inr ()"
    using t [where q = ?fail and w = ?w, THEN conjunct2, THEN conjunct1, rule_format, OF ok] .
  have hook: "preHook ?pre ?v = (Inl (Err ''quota''), ?v\<lparr>calls := [OnPreHook]\<rparr>) \<and>
    Err ''quota'' \<noteq> STOP_PROCESSING"
    by (simp add: promise_defs queue_defs example_defs)
  have 3: "processNextBatch ?pre ?v = (Inl (Err ''quota''), ?v\<lparr>calls := [OnPreHook]\<rparr>)"
    using t [where q = ?pre and w = ?v,
        THEN conjunct2, THEN conjunct2, THEN conjunct2, THEN conjunct1, rule_format, OF hook] .
  have sel: "preHook example_opts ?down = (Inr (), ?down) \<and>
    getNextBatch example_opts ?down = (Inl (Err ''down''), ?v) \<and>
    Err ''down'' \<noteq> STOP_PROCESSING"
    by (simp add: promise_defs queue_defs example_defs)
  have 4: "processNextBatch example_opts ?down = (Inl (Err ''down''), ?v)"
    using t [where q = example_opts and w = ?down,
        THEN conjunct2, THEN conjunct2, THEN conjunct2, THEN conjunct2, THEN conjunct1,
        rule_format, OF sel] .
  have rec: "preHook ?skip ?late = (Inr (), ?late) \<and>
    getNextBatch ?skip ?late = (Inr ([] @ ?d1 # [?d2]), ?late1) \<and>
    mapSeries (processRecord ?skip) [] ?late1 = (Inr [], ?late1) \<and>
    processRecord ?skip ?d1 ?late1 = (Inl (Err ''down''), ?w\<lparr>calls := [OnProcess 1]\<rparr>) \<and>
    Err ''down'' \<noteq> STOP_PROCESSING"
    by (simp add: promise_defs queue_defs example_defs)
  have 5: "processNextBatch ?skip ?late = (Inl (Err ''down''), ?w\<lparr>calls := [OnProcess 1]\<rparr>)"
    using t [where q = ?skip and w = ?late,
        THEN conjunct2, THEN conjunct2, THEN conjunct2, THEN conjunct2, THEN conjunct2,
        THEN conjunct1, rule_format, OF rec] .
  have skp: "\<not> recordHasFailed ?skip ?d1 \<and> onProcess ?skip ?d1 = Inl (SkipSignal None) \<and>
    (if isSkip (SkipSignal None) then processSkip ?d1 (SkipSignal None)
     else if isFail (SkipSignal None) then failImmediately ?skip ?d1 (SkipSignal None)
     else processFailure ?skip ?d1 (SkipSignal None))
      (?down\<lparr>calls := calls ?down @ [OnProcess (oid ?d1)]\<rparr>) =
      (Inl (Err ''down''), ?v\<lparr>calls := [OnProcess 1]\<rparr>)"
    by (simp add: promise_defs queue_defs example_defs)
  have 6: "processRecord ?skip ?d1 ?down = (Inl (Err ''down''), ?v\<lparr>calls := [OnProcess 1]\<rparr>)"
    using t [where q = ?skip and r = ?d1 and v = ?down and e = "SkipSignal None",
        THEN conjunct2, THEN conjunct2, THEN conjunct2, THEN conjunct2, THEN conjunct2,
        THEN conjunct2, THEN conjunct1, rule_format, OF skp] .
  have ntf: "recordHasFailed example_opts ?x \<and>
    notifyFailedRecord example_opts (Some ?x) ?xdown =
      (Inl (Err ''down''), (example_world [?x])\<lparr>calls := [OnFailure (Some 1)]\<rparr>)"
    by (simp add: promise_defs queue_defs example_defs)
  have 7: "processRecord example_opts ?x ?xdown =
      (Inl (Err ''down''), (example_world [?x])\<lparr>calls := [OnFailure (Some 1)]\<rparr>)"
    using t [where q = example_opts and r = ?x and v = ?xdown,
        THEN conjunct2, THEN conjunct2, THEN conjunct2, THEN conjunct2, THEN conjunct2,
        THEN conjunct2, THEN conjunct2, THEN conjunct1, rule_format, OF ntf] .
  have suc: "\<not> recordHasFailed ?ok ?d1 \<and> onProcess ?ok ?d1 = Inr None \<and>
    processSuccess (attachInfo ?d1 None) (?down1\<lparr>calls := calls ?down1 @ [OnProcess (oid ?d1)]\<rparr>) =
      (Inl (Err ''down''), ?v\<lparr>calls := [OnProcess 1]\<rparr>)"
    by (simp add: promise_defs queue_defs example_defs)
  from t [where q = ?ok and r = ?d1 and v = ?down1 and ai = None,
        THEN conjunct2, THEN conjunct2, THEN conjunct2, THEN conjunct2, THEN conjunct2,
        THEN conjunct2, THEN conjunct2, THEN conjunct2, rule_format, OF suc]
  have 8: "processRecord ?ok ?d1 ?down1 =
     (Inl STOP_PROCESSING,
      \<lparr>docs = [(doc 1 failed 1 (Some 1050) (Some 1))
                 \<lparr>processedDate := Some 50, failureReason := Some ''down''\<rparr>],
       clock = (\<lambda>_. 50), faults = (\<lambda>_. None), calls = [OnProcess 1]\<rparr>)"
    by (simp add: promise_defs processFailure_def getErrorBackoffMs_def retryCount_or_0_def
        example_defs)
  from 1 2 3 4 5 6 7 8 show ?thesis by simp
qed

text \<open>
  The amended claim leaves one rejection of the failure hook out: when \<open>onFailure\<close> is
  rejected with \<^verbatim>\<open>undefined\<close> or \<^verbatim>\<open>null\<close>, reading \<^verbatim>\<open>reason.stack\<close> throws, nothing is
  persisted and the tick is rejected with the \<^verbatim>\<open>TypeError\<close>.
\<close>

lemma nullish_hook_rejection_rejects_tick:
  "processNextBatch (example_opts\<lparr>onFailure := \<lambda>_. Inl Nullish\<rparr>)
     (example_world [doc 1 failed 1 (Some 0) (Some 2)]) =
     (Inl (Err ''TypeError: Cannot read property stack of undefined''),
      (example_world [doc 1 failed 1 (Some 0) (Some 2)])\<lparr>calls := [OnFailure (Some 1)]\<rparr>)"
  by (simp add: promise_defs queue_defs example_defs)

subsection \<open>Overlapping ticks\<close>


end
